theory Spec2Isabelle
  imports Complex_Main "HOL-Library.AList"
begin

section \<open>Data model of main.py\<close>

text \<open>
  A shallow embedding of the request handlers of main.py. Python dictionaries are
  association lists with distinct keys in insertion order (\<open>map_of\<close> reads a key,
  \<open>AList.update\<close> assigns one: in place when the key exists, at the end otherwise).
  Every \<open>raise\<close> of the source is a value \<open>Inl e\<close>. A handler takes the state of the
  module (the connection manager, \<open>battles\<close>, \<open>current_battle_id\<close>) and returns it
  updated; what the process reads from outside (the clock, the random generator, which
  sends fail) is a record \<open>env\<close>, one per handler invocation. The handlers are run
  one after the other. The one place where the source reads shared state across an
  \<open>await\<close> is the loop of \<open>broadcast\<close>, which walks the live registry: there, what the
  other coroutines do to the registry during each \<open>await\<close> is given by a schedule
  (\<open>broadcast_at\<close>), and the handlers run the loop with the empty schedule.
\<close>

type_synonym websocket = nat

datatype py_error =
    HTTPException nat string
  | KeyError
  | TypeError
  | ValueError
  | IndexError
  | JSONDecodeError
  | SendError

text \<open>The dictionaries built by \<open>generate_ai_action\<close>; the key \<open>"type"\<close> is the constructor.\<close>

datatype action =
    Attack string string string string int rat
      \<comment> \<open>timestamp, actor, technique, description, threat_level, success_probability\<close>
  | Defense string string string string rat
      \<comment> \<open>timestamp, actor, strategy, description, effectiveness\<close>

record BattleState =
  battle_id :: string
  scenario :: string
  attacker_persona :: string
  defender_persona :: string
  current_phase :: string
  threat_level :: int
  audience_votes :: "(string \<times> int) list"
  battle_log :: "action list"
  is_active :: bool

text \<open>
  The payloads given to \<open>manager.broadcast\<close>: the dictionary under \<open>json.dumps\<close>, by its
  \<open>"type"\<close> and its other entries.
\<close>

datatype envelope =
    battle_started BattleState
  | vote_update "(string \<times> int) list"
  | battle_action action BattleState

text \<open>
  The module state. \<open>wire\<close> is not a variable of the source: it records, in order, every
  \<open>send_text\<close> that succeeded, so that what a broadcast delivered can be stated.
\<close>

record app =
  active_connections :: "websocket list"
  battles :: "(string \<times> BattleState) list"
  current_battle_id :: "string option"
  wire :: "(websocket \<times> envelope) list"

record env =
  clock_seconds :: int  \<comment> \<open>\<open>int(time.time())\<close>\<close>
  clock_iso :: string  \<comment> \<open>\<open>datetime.now().isoformat()\<close>\<close>
  label_draw :: nat  \<comment> \<open>the generator's output behind the first \<open>random.choice\<close>\<close>
  technique_draw :: nat  \<comment> \<open>behind the second \<open>random.choice\<close>\<close>
  unit_draw :: nat  \<comment> \<open>behind \<open>random.uniform\<close>\<close>
  failing :: "websocket set"  \<comment> \<open>the sessions whose \<open>send_text\<close> raises\<close>

record attacker_profile =
  a_name :: string
  a_description :: string
  a_threat_level :: int
  techniques :: "string list"

record defender_profile =
  d_name :: string
  d_description :: string
  strategy :: string

definition ATTACKER_PERSONAS :: "(string \<times> attacker_profile) list" where
  "ATTACKER_PERSONAS =
    [(''script_kiddie'',
        \<lparr>a_name = ''Script Kiddie'',
         a_description = ''Novice hacker using basic tools'',
         a_threat_level = 1,
         techniques = [''Phishing'', ''Malware'', ''Social Engineering'']\<rparr>),
     (''cybercriminal'',
        \<lparr>a_name = ''Cybercriminal'',
         a_description = ''Organized crime member with moderate skills'',
         a_threat_level = 3,
         techniques = [''Ransomware'', ''Banking Trojans'', ''Credential Theft'']\<rparr>),
     (''apt_group'',
        \<lparr>a_name = ''APT Group'',
         a_description = ''Advanced Persistent Threat with sophisticated methods'',
         a_threat_level = 7,
         techniques = [''Zero-day Exploits'', ''Living off the Land'', ''Supply Chain Attacks'']\<rparr>),
     (''insider_threat'',
        \<lparr>a_name = ''Insider Threat'',
         a_description = ''Malicious employee with privileged access'',
         a_threat_level = 5,
         techniques = [''Data Exfiltration'', ''Privilege Escalation'', ''Backdoor Installation'']\<rparr>),
     (''nation_state'',
        \<lparr>a_name = ''Nation-State Actor'',
         a_description = ''State-sponsored cyber warfare unit'',
         a_threat_level = 10,
         techniques = [''Infrastructure Attacks'', ''Espionage'', ''Cyber Warfare'']\<rparr>)]"

definition DEFENDER_PERSONAS :: "(string \<times> defender_profile) list" where
  "DEFENDER_PERSONAS =
    [(''security_analyst'',
        \<lparr>d_name = ''Security Analyst'',
         d_description = ''Front-line defender monitoring threats'',
         strategy = ''Reactive monitoring and incident response''\<rparr>),
     (''threat_hunter'',
        \<lparr>d_name = ''Threat Hunter'',
         d_description = ''Proactive threat detection specialist'',
         strategy = ''Proactive hunting and threat intelligence''\<rparr>),
     (''incident_responder'',
        \<lparr>d_name = ''Incident Responder'',
         d_description = ''Emergency response and containment expert'',
         strategy = ''Rapid containment and forensic analysis''\<rparr>),
     (''security_architect'',
        \<lparr>d_name = ''Security Architect'',
         d_description = ''Strategic defense planning specialist'',
         strategy = ''Defense-in-depth and architectural security''\<rparr>),
     (''ai_defender'',
        \<lparr>d_name = ''AI Defender'',
         d_description = ''Machine learning powered defense system'',
         strategy = ''Automated threat detection and response''\<rparr>)]"

section \<open>The connection manager\<close>

definition connect :: "websocket \<Rightarrow> app \<Rightarrow> app" where
  "connect websocket s = s\<lparr>active_connections := active_connections s @ [websocket]\<rparr>"

text \<open>\<open>list.remove\<close> deletes the first occurrence and raises \<open>ValueError\<close> when there is none.\<close>

definition disconnect :: "websocket \<Rightarrow> app \<Rightarrow> py_error + app" where
  "disconnect websocket s =
    (if websocket \<in> set (active_connections s)
     then Inr (s\<lparr>active_connections := remove1 websocket (active_connections s)\<rparr>)
     else Inl ValueError)"

definition send_text :: "env \<Rightarrow> websocket \<Rightarrow> envelope \<Rightarrow> app \<Rightarrow> py_error + app" where
  "send_text e connection message s =
    (if connection \<in> failing e then Inl SendError
     else Inr (s\<lparr>wire := wire s @ [(connection, message)]\<rparr>))"

text \<open>\<open>try: await connection.send_text(message)\<close>, \<open>except: pass\<close>.\<close>

definition try_send :: "env \<Rightarrow> websocket \<Rightarrow> envelope \<Rightarrow> app \<Rightarrow> app" where
  "try_send e connection message s =
    (case send_text e connection message s of Inl err \<Rightarrow> s | Inr s' \<Rightarrow> s')"

text \<open>
  While \<open>broadcast\<close> is suspended in an \<open>await\<close>, the handler of another session may
  reach \<open>manager.connect\<close> or \<open>manager.disconnect\<close>. A \<open>disconnect\<close> of a session that
  is not registered raises in that handler and leaves the list as it is.
\<close>

datatype registry_event = Joined websocket | Left websocket

fun other_coroutine :: "registry_event \<Rightarrow> app \<Rightarrow> app" where
  "other_coroutine (Joined websocket) s = connect websocket s"
| "other_coroutine (Left websocket) s =
    (case disconnect websocket s of Inl err \<Rightarrow> s | Inr s' \<Rightarrow> s')"


text \<open>
  A schedule lists, for each \<open>await\<close> of the loop in turn, the registry events that
  happen during it; once it is used up, nothing more happens.
\<close>

definition during_await :: "registry_event list list \<Rightarrow> app \<Rightarrow> app" where
  "during_await schedule s =
    (case schedule of [] \<Rightarrow> s | events # later \<Rightarrow> fold other_coroutine events s)"

text \<open>
  The loop of \<open>broadcast\<close>, \<open>for connection in self.active_connections\<close>, as Python's
  list iterator runs it: the iterator keeps an index \<open>i\<close> into the live list, and each
  step reads \<open>self.active_connections[i]\<close> as the list is at that moment, or stops when
  \<open>i\<close> has reached its length. The loop ends because each step uses up an index or an
  event of the schedule.
\<close>

function broadcast_at ::
  "registry_event list list \<Rightarrow> env \<Rightarrow> envelope \<Rightarrow> nat \<Rightarrow> app \<Rightarrow> py_error + app" where
  "broadcast_at schedule e message i s =
    (if i < length (active_connections s)
     then broadcast_at (tl schedule) e message (Suc i)
            (during_await schedule (try_send e (active_connections s ! i) message s))
     else Inr s)"
  by pat_completeness auto
termination
proof (relation "measure (\<lambda>(schedule, e, message, i, s).
          length (active_connections s) + sum_list (map length schedule) - i)")
  show "wf (measure (\<lambda>(schedule, e, message, i, s).
          length (active_connections s) + sum_list (map length schedule) - i))"
    by simp
next
  fix schedule :: "registry_event list list" and e :: env and message :: envelope
    and i :: nat and s :: app
  assume i: "i < length (active_connections s)"
  have one: "length (active_connections (other_coroutine ev t))
      \<le> Suc (length (active_connections t))" for ev t
    by (cases ev) (auto simp: connect_def disconnect_def length_remove1)
  have many: "length (active_connections (fold other_coroutine events t))
      \<le> length (active_connections t) + length events" for events t
  proof (induction events arbitrary: t)
    case Nil
    then show ?case by simp
  next
    case (Cons ev events)
    have "length (active_connections (fold other_coroutine events (other_coroutine ev t)))
        \<le> length (active_connections (other_coroutine ev t)) + length events"
      by (rule Cons.IH)
    also have "\<dots> \<le> Suc (length (active_connections t)) + length events"
      using one[of ev t] by simp
    finally show ?case by simp
  qed
  let ?s1 = "try_send e (active_connections s ! i) message s"
  have same: "active_connections ?s1 = active_connections s"
    by (simp add: try_send_def send_text_def)
  have "length (active_connections (during_await schedule ?s1))
          + sum_list (map length (tl schedule))
        \<le> length (active_connections s) + sum_list (map length schedule)"
  proof (cases schedule)
    case Nil
    then show ?thesis by (simp add: during_await_def same)
  next
    case (Cons events later)
    then show ?thesis using many[of events ?s1] by (simp add: during_await_def same)
  qed
  with i show "((tl schedule, e, message, Suc i, during_await schedule ?s1),
        (schedule, e, message, i, s))
      \<in> measure (\<lambda>(schedule, e, message, i, s).
          length (active_connections s) + sum_list (map length schedule) - i)"
    by simp
qed

text \<open>
  \<open>manager.broadcast(message)\<close> as the handlers below run it: the loop from the first
  session, in a run where no other coroutine changes the registry meanwhile.
\<close>

definition broadcast :: "env \<Rightarrow> envelope \<Rightarrow> app \<Rightarrow> py_error + app" where
  "broadcast e message s = broadcast_at [] e message 0 s"

section \<open>The battle endpoints\<close>

text \<open>\<open>str\<close> of a Python integer: decimal digits, a minus sign when negative.\<close>

definition digit_char :: "nat \<Rightarrow> char" where
  "digit_char d = ''0123456789'' ! d"

fun digits :: "nat \<Rightarrow> string" where
  "digits n = (if n < 10 then [digit_char n] else digits (n div 10) @ [digit_char (n mod 10)])"

definition py_str :: "int \<Rightarrow> string" where
  "py_str i = (if i < 0 then CHR ''-'' # digits (nat (- i)) else digits (nat i))"

definition start_battle ::
  "string \<Rightarrow> string \<Rightarrow> string \<Rightarrow> env \<Rightarrow> app \<Rightarrow> app \<times> (py_error + string \<times> string \<times> BattleState)" where
  "start_battle scenario' attacker defender e s =
    (let new_id = ''battle_'' @ py_str (clock_seconds e);
         s1 = s\<lparr>current_battle_id := Some new_id\<rparr>;
         battle = \<lparr>battle_id = new_id,
                   scenario = scenario',
                   attacker_persona = attacker,
                   defender_persona = defender,
                   current_phase = ''reconnaissance'',
                   threat_level = 1,
                   audience_votes = [],
                   battle_log = [],
                   is_active = True\<rparr>;
         s2 = s1\<lparr>battles := AList.update new_id battle (battles s1)\<rparr>
     in case broadcast e (battle_started battle) s2 of
          Inl err \<Rightarrow> (s2, Inl err)
        | Inr s3 \<Rightarrow> (s3, Inr (''Battle started'', new_id, battle)))"

text \<open>
  \<open>current_battle_id and current_battle_id in battles\<close>: \<open>None\<close> and the empty string
  are both false in Python.
\<close>

definition get_current_battle :: "app \<Rightarrow> BattleState option" where
  "get_current_battle s =
    (case current_battle_id s of
       None \<Rightarrow> None
     | Some i \<Rightarrow> if i \<noteq> [] \<and> map_of (battles s) i \<noteq> None then map_of (battles s) i else None)"

definition cast_vote ::
  "string \<Rightarrow> string \<Rightarrow> env \<Rightarrow> app \<Rightarrow> app \<times> (py_error + string \<times> (string \<times> int) list)" where
  "cast_vote option' user_id e s =
    (case current_battle_id s of
       None \<Rightarrow> (s, Inl (HTTPException 404 ''No active battle''))
     | Some i \<Rightarrow>
        (case (if i = [] then None else map_of (battles s) i) of
           None \<Rightarrow> (s, Inl (HTTPException 404 ''No active battle''))
         | Some battle \<Rightarrow>
            (let votes0 = audience_votes battle;
                 votes1 = (if map_of votes0 option' = None
                           then AList.update option' 0 votes0 else votes0)
             in case map_of votes1 option' of
                  None \<Rightarrow> (s, Inl KeyError)
                | Some n \<Rightarrow>
                   (let votes2 = AList.update option' (n + 1) votes1;
                        s1 = s\<lparr>battles :=
                               AList.update i (battle\<lparr>audience_votes := votes2\<rparr>) (battles s)\<rparr>
                    in case broadcast e (vote_update votes2) s1 of
                         Inl err \<Rightarrow> (s1, Inl err)
                       | Inr s2 \<Rightarrow> (s2, Inr (''Vote cast successfully'', votes2))))))"

text \<open>A run of \<open>cast_vote\<close> calls, each with its arguments and its environment.\<close>

fun cast_votes ::
  "(string \<times> string \<times> env) list \<Rightarrow> app \<Rightarrow> app \<times> (py_error + string \<times> (string \<times> int) list) list" where
  "cast_votes [] s = (s, [])"
| "cast_votes ((option', user_id, e) # calls) s =
    (case cast_vote option' user_id e s of
       (s', r) \<Rightarrow> (case cast_votes calls s' of (s'', rs) \<Rightarrow> (s'', r # rs)))"

section \<open>The action generator\<close>

text \<open>
  The standard library's \<open>random\<close>, as its documentation defines it: \<open>choice(seq)\<close> is
  \<open>seq[randbelow(len(seq))]\<close> and raises \<open>IndexError\<close> on an empty sequence,
  \<open>random()\<close> is a multiple of \<open>2 ^ - 53\<close> in \<open>[0, 1)\<close>, and \<open>uniform(a, b)\<close> is
  \<open>a + (b - a) * random()\<close>, computed in doubles. The generator's output is a natural
  number of the environment.
\<close>

definition choice :: "'a list \<Rightarrow> nat \<Rightarrow> py_error + 'a" where
  "choice seq k = (if seq = [] then Inl IndexError else Inr (seq ! (k mod length seq)))"

definition random_unit :: "nat \<Rightarrow> rat" where
  "random_unit k = of_nat (k mod 2 ^ 53) / 2 ^ 53"

text \<open>
  Python's \<open>float\<close> is the IEEE 754 binary64 format. A double is represented by the
  rational number it denotes, and every operation rounds its exact result to the nearest
  double, a tie going to the even significand. \<open>bits n\<close> is the length of \<open>n\<close> in
  binary, \<open>ilog2 x\<close> the exponent \<open>\<lfloor>log\<^sub>2 x\<rfloor>\<close> of a positive \<open>x\<close>, and
  \<open>to_double\<close> rounds to 53 significant bits, with the fixed spacing \<open>2 ^ - 1074\<close> below
  \<open>2 ^ - 1022\<close>. Infinities are not represented: \<open>to_double\<close> is the rounding of
  binary64 for magnitudes below \<open>2 ^ 1024\<close>, and no value computed here exceeds 2.
\<close>

fun bits :: "nat \<Rightarrow> nat" where
  "bits n = (if n = 0 then 0 else Suc (bits (n div 2)))"

definition ilog2 :: "rat \<Rightarrow> int" where
  "ilog2 x = (if 1 \<le> x then int (bits (nat \<lfloor>x\<rfloor>)) - 1
              else - int (bits (nat (\<lceil>1 / x\<rceil> - 1))))"

definition round_half_even :: "rat \<Rightarrow> int" where
  "round_half_even y =
    (let n = \<lfloor>y\<rfloor>; r = y - of_int n
     in if r < 1 / 2 then n else if 1 / 2 < r then n + 1 else if even n then n else n + 1)"

definition to_double :: "rat \<Rightarrow> rat" where
  "to_double x =
    (if x = 0 then 0
     else (let u = 2 powi (max (ilog2 \<bar>x\<bar>) (- 1022) - 52)
           in sgn x * of_int (round_half_even (\<bar>x\<bar> / u)) * u))"

text \<open>
  \<open>random.uniform(a, b)\<close>, with \<open>a\<close> and \<open>b\<close> given by the decimal literals of the call:
  Python reads each literal as the nearest double, then subtracts, multiplies and adds in
  doubles.
\<close>

definition uniform :: "rat \<Rightarrow> rat \<Rightarrow> nat \<Rightarrow> rat" where
  "uniform a b k =
    (let a' = to_double a; b' = to_double b
     in to_double (a' + to_double (to_double (b' - a') * random_unit k)))"

datatype json =
    JNull
  | JBool bool
  | JNum rat
  | JStr string
  | JArr "json list"
  | JObj "(string \<times> json) list"

definition generate_ai_action :: "BattleState \<Rightarrow> json option \<Rightarrow> env \<Rightarrow> py_error + action" where
  "generate_ai_action battle user_input e =
    (case map_of ATTACKER_PERSONAS (attacker_persona battle) of
       None \<Rightarrow> Inl KeyError
     | Some attacker \<Rightarrow>
        (case map_of DEFENDER_PERSONAS (defender_persona battle) of
           None \<Rightarrow> Inl KeyError
         | Some defender \<Rightarrow>
            (case choice [''attack'', ''defend'', ''reconnaissance'', ''escalation''] (label_draw e) of
               Inl err \<Rightarrow> Inl err
             | Inr action_type \<Rightarrow>
                if action_type = ''attack'' then
                  (case choice (techniques attacker) (technique_draw e) of
                     Inl err \<Rightarrow> Inl err
                   | Inr technique \<Rightarrow>
                      Inr (Attack (clock_iso e) (a_name attacker) technique
                             (a_name attacker @ '' launches '' @ technique @ '' attack'')
                             (a_threat_level attacker)
                             (uniform (3 / 10) (9 / 10) (unit_draw e))))
                else
                  Inr (Defense (clock_iso e) (d_name defender) (strategy defender)
                         (d_name defender @ '' implements '' @ strategy defender)
                         (uniform (4 / 10) (95 / 100) (unit_draw e))))))"

section \<open>The session gateway\<close>

text \<open>
  What \<open>receive_text\<close> gives the loop: a text, represented by what \<open>json.loads\<close> makes
  of it (a value, or \<open>JSONDecodeError\<close>), or the exception \<open>WebSocketDisconnect\<close>.
  A \<open>JObj\<close> holds the items of the decoded dictionary.
\<close>

datatype frame = Undecodable | Decoded json

datatype ws_event = Receive frame | Disconnect

text \<open>\<open>message[key]\<close> with a string key: only a dictionary can be indexed by one.\<close>

fun subscript :: "json \<Rightarrow> string \<Rightarrow> py_error + json" where
  "subscript (JObj items) key = (case map_of items key of None \<Rightarrow> Inl KeyError | Some v \<Rightarrow> Inr v)"
| "subscript _ key = Inl TypeError"

text \<open>\<open>message.get(key)\<close>; it is reached only after \<open>message["type"]\<close> succeeded.\<close>

fun dict_get :: "json \<Rightarrow> string \<Rightarrow> py_error + json option" where
  "dict_get (JObj items) key = Inr (map_of items key)"
| "dict_get _ key = Inl TypeError"

text \<open>The body of the \<open>while True\<close> loop, from \<open>json.loads(data)\<close> on.\<close>

definition on_message :: "frame \<Rightarrow> env \<Rightarrow> app \<Rightarrow> app \<times> (py_error + unit)" where
  "on_message data e s =
    (case data of
       Undecodable \<Rightarrow> (s, Inl JSONDecodeError)
     | Decoded message \<Rightarrow>
        (case subscript message ''type'' of
           Inl err \<Rightarrow> (s, Inl err)
         | Inr t \<Rightarrow>
            if t = JStr ''battle_action'' then
              (case current_battle_id s of
                 None \<Rightarrow> (s, Inr ())
               | Some i \<Rightarrow>
                  (case (if i = [] then None else map_of (battles s) i) of
                     None \<Rightarrow> (s, Inr ())
                   | Some battle \<Rightarrow>
                      (case dict_get message ''user_input'' of
                         Inl err \<Rightarrow> (s, Inl err)
                       | Inr user_input \<Rightarrow>
                          (case generate_ai_action battle user_input e of
                             Inl err \<Rightarrow> (s, Inl err)
                           | Inr action \<Rightarrow>
                              (let battle' = battle\<lparr>battle_log := battle_log battle @ [action]\<rparr>;
                                   s1 = s\<lparr>battles := AList.update i battle' (battles s)\<rparr>
                               in case broadcast e (battle_action action battle') s1 of
                                    Inl err \<Rightarrow> (s1, Inl err)
                                  | Inr s2 \<Rightarrow> (s2, Inr ()))))))
            else (s, Inr ())))"

text \<open>
  How the handler stands after the events it was given: still waiting in
  \<open>receive_text\<close>, returned through the \<open>except WebSocketDisconnect\<close> clause, or left by
  an exception that no clause catches.
\<close>

datatype exit = Awaiting | Returned | Raised py_error

fun serve :: "websocket \<Rightarrow> (ws_event \<times> env) list \<Rightarrow> app \<Rightarrow> app \<times> exit" where
  "serve websocket [] s = (s, Awaiting)"
| "serve websocket ((Disconnect, e) # rest) s =
    (case disconnect websocket s of
       Inl err \<Rightarrow> (s, Raised err)
     | Inr s' \<Rightarrow> (s', Returned))"
| "serve websocket ((Receive data, e) # rest) s =
    (case on_message data e s of
       (s', Inl err) \<Rightarrow> (s', Raised err)
     | (s', Inr u) \<Rightarrow> serve websocket rest s')"

definition websocket_endpoint :: "websocket \<Rightarrow> (ws_event \<times> env) list \<Rightarrow> app \<Rightarrow> app \<times> exit" where
  "websocket_endpoint websocket events s = serve websocket events (connect websocket s)"

text \<open>
  A payload is malformed when the loop cannot read a typed envelope from it:
  \<open>json.loads\<close> or \<open>message["type"]\<close> raises.
\<close>

definition malformed :: "frame \<Rightarrow> bool" where
  "malformed data =
    (case data of Undecodable \<Rightarrow> True | Decoded message \<Rightarrow> isl (subscript message ''type''))"

definition other_type :: "frame \<Rightarrow> bool" where
  "other_type data =
    (case data of
       Undecodable \<Rightarrow> False
     | Decoded message \<Rightarrow>
        (case subscript message ''type'' of
           Inl err \<Rightarrow> False
         | Inr t \<Rightarrow> t \<noteq> JStr ''battle_action''))"

text \<open>The module state at process start.\<close>

definition initial :: app where
  "initial = \<lparr>active_connections = [], battles = [], current_battle_id = None, wire = []\<rparr>"

text \<open>The \<open>"battle_id"\<close> entry of the response of \<open>start_battle\<close>.\<close>

definition started_id :: "app \<times> (py_error + string \<times> string \<times> BattleState) \<Rightarrow> string option" where
  "started_id r = (case snd r of Inl err \<Rightarrow> None | Inr (msg, new_id, battle) \<Rightarrow> Some new_id)"

text \<open>The number a string of decimal digits denotes; used to show that \<open>digits\<close> is injective.\<close>

definition digits_val :: "string \<Rightarrow> nat" where
  "digits_val cs = foldl (\<lambda>acc c. 10 * acc + (of_char c - 48)) 0 cs"

text \<open>The tally after lines 243 to 245 of \<open>cast_vote\<close> have counted one vote for \<open>opt\<close>.\<close>

definition tally_add :: "(string \<times> int) list \<Rightarrow> string \<Rightarrow> (string \<times> int) list" where
  "tally_add votes opt =
     AList.update opt (case map_of votes opt of None \<Rightarrow> 1 | Some n \<Rightarrow> n + 1) votes"

text \<open>
  The example of the specification: a hospital battle between \<open>apt_group\<close> and
  \<open>ai_defender\<close>, started at second 1700000000, with three sessions registered, of
  which session 2 has gone away.
\<close>

definition example_env :: env where
  "example_env = \<lparr>clock_seconds = 1700000000, clock_iso = ''2023-11-14T22:13:20'',
                   label_draw = 0, technique_draw = 0, unit_draw = 0, failing = {2}\<rparr>"

definition example_battle :: BattleState where
  "example_battle = \<lparr>battle_id = ''battle_1700000000'', scenario = ''hospital'',
                      attacker_persona = ''apt_group'', defender_persona = ''ai_defender'',
                      current_phase = ''reconnaissance'', threat_level = 1,
                      audience_votes = [], battle_log = [], is_active = True\<rparr>"

definition example_state :: app where
  "example_state = \<lparr>active_connections = [1, 2, 3],
                     battles = [(''battle_1700000000'', example_battle)],
                     current_battle_id = Some ''battle_1700000000'', wire = []\<rparr>"

declare digits.simps [simp del]

declare bits.simps [simp del]

declare broadcast_at.simps [simp del]

section \<open>Broadcast\<close>

lemma active_connections_try_send [simp]:
  "active_connections (try_send e c m s) = active_connections s"
  by (simp add: try_send_def send_text_def)


lemma during_await_quiet: "concat schedule = [] \<Longrightarrow> during_await schedule s = s"
  by (cases schedule) (simp_all add: during_await_def)

lemma broadcast_at_quiet:
  assumes "concat schedule = []"
  shows "broadcast_at schedule e m i s =
     Inr (s\<lparr>wire := wire s @ map (\<lambda>c. (c, m))
                (filter (\<lambda>c. c \<notin> failing e) (drop i (active_connections s)))\<rparr>)"
  using assms
proof (induction schedule e m i s rule: broadcast_at.induct)
  case (1 schedule e message i s)
  show ?case
  proof (cases "i < length (active_connections s)")
    case True
    have q: "concat (tl schedule) = []" using "1.prems" by (cases schedule) simp_all
    have d: "during_await schedule (try_send e (active_connections s ! i) message s)
               = try_send e (active_connections s ! i) message s"
      using "1.prems" by (rule during_await_quiet)
    have step: "broadcast_at schedule e message i s =
        broadcast_at (tl schedule) e message (Suc i)
          (try_send e (active_connections s ! i) message s)"
      using True by (subst broadcast_at.simps) (simp add: d)
    have ih: "broadcast_at (tl schedule) e message (Suc i)
          (try_send e (active_connections s ! i) message s) =
        Inr ((try_send e (active_connections s ! i) message s)
          \<lparr>wire := wire (try_send e (active_connections s ! i) message s) @
             map (\<lambda>c. (c, message)) (filter (\<lambda>c. c \<notin> failing e)
               (drop (Suc i) (active_connections s)))\<rparr>)"
      using "1.IH"[OF True q] by (simp add: d)
    have dr: "drop i (active_connections s) =
        active_connections s ! i # drop (Suc i) (active_connections s)"
      using True by (simp add: Cons_nth_drop_Suc)
    show ?thesis
    proof (cases "active_connections s ! i \<in> failing e")
      case True
      then have "try_send e (active_connections s ! i) message s = s"
        by (simp add: try_send_def send_text_def)
      with step ih dr True show ?thesis by simp
    next
      case False
      then have "try_send e (active_connections s ! i) message s =
          s\<lparr>wire := wire s @ [(active_connections s ! i, message)]\<rparr>"
        by (simp add: try_send_def send_text_def)
      with step ih dr False show ?thesis by simp
    qed
  next
    case False
    then show ?thesis by (subst broadcast_at.simps) simp
  qed
qed

lemma broadcast_eq:
  "broadcast e m s =
     Inr (s\<lparr>wire := wire s @
            map (\<lambda>c. (c, m)) (filter (\<lambda>c. c \<notin> failing e) (active_connections s))\<rparr>)"
  by (simp add: broadcast_def broadcast_at_quiet)


lemma wire_other_coroutine [simp]: "wire (other_coroutine ev t) = wire t"
  by (cases ev) (simp_all add: connect_def disconnect_def)

lemma wire_fold_other_coroutine [simp]: "wire (fold other_coroutine events t) = wire t"
  by (induction events arbitrary: t) simp_all

lemma wire_during_await [simp]: "wire (during_await schedule t) = wire t"
  by (cases schedule) (simp_all add: during_await_def)








section \<open>Decimal rendering is injective\<close>

lemma digit_char_val: "d < 10 \<Longrightarrow> of_char (digit_char d) = 48 + d"
proof -
  assume "d < 10"
  then have "d \<in> {0, 1, 2, 3, 4, 5, 6, 7, 8, 9}" by auto
  then show ?thesis by (auto simp: digit_char_def)
qed

lemma digits_val_digits: "digits_val (digits n) = n"
proof (induction n rule: digits.induct)
  case (1 n)
  show ?case
  proof (cases "n < 10")
    case True
    then show ?thesis
      by (subst digits.simps) (simp add: digits_val_def digit_char_val)
  next
    case False
    have "digits_val (digits n) = 10 * digits_val (digits (n div 10)) + n mod 10"
      using False by (subst digits.simps) (simp add: digits_val_def digit_char_val)
    with 1 False show ?thesis by simp
  qed
qed

lemma digits_inj: "digits m = digits n \<Longrightarrow> m = n"
  by (metis digits_val_digits)

lemma digits_chars: "c \<in> set (digits n) \<Longrightarrow> c \<noteq> CHR ''-''"
proof (induction n rule: digits.induct)
  case (1 n)
  show ?case
  proof (cases "n < 10")
    case True
    with "1.prems" have "c = digit_char n" by (subst (asm) digits.simps) simp
    then have "of_char c = 48 + n" using True by (simp add: digit_char_val)
    then show ?thesis by auto
  next
    case False
    with "1.prems" have "c \<in> set (digits (n div 10)) \<or> c = digit_char (n mod 10)"
      by (subst (asm) digits.simps) auto
    then show ?thesis
    proof
      assume "c \<in> set (digits (n div 10))"
      with 1 False show ?thesis by simp
    next
      assume "c = digit_char (n mod 10)"
      then have "of_char c = 48 + n mod 10" by (simp add: digit_char_val)
      then show ?thesis by auto
    qed
  qed
qed

lemma digits_no_sign: "digits n \<noteq> CHR ''-'' # ds"
  using digits_chars by (metis list.set_intros(1))

lemma py_str_inj: "py_str i = py_str j \<Longrightarrow> i = j"
proof -
  assume eq: "py_str i = py_str j"
  show ?thesis
  proof (cases "i < 0")
    case True
    show ?thesis
    proof (cases "j < 0")
      case True
      with \<open>i < 0\<close> eq have "digits (nat (- i)) = digits (nat (- j))" by (simp add: py_str_def)
      then have "nat (- i) = nat (- j)" by (rule digits_inj)
      with True \<open>i < 0\<close> show ?thesis by simp
    next
      case False
      with \<open>i < 0\<close> eq have "CHR ''-'' # digits (nat (- i)) = digits (nat j)"
        by (simp add: py_str_def)
      then show ?thesis using digits_no_sign by metis
    qed
  next
    case False
    show ?thesis
    proof (cases "j < 0")
      case True
      with False eq have "digits (nat i) = CHR ''-'' # digits (nat (- j))"
        by (simp add: py_str_def)
      then show ?thesis using digits_no_sign by metis
    next
      case False
      with \<open>\<not> i < 0\<close> eq have "digits (nat i) = digits (nat j)" by (simp add: py_str_def)
      then have "nat i = nat j" by (rule digits_inj)
      with False \<open>\<not> i < 0\<close> show ?thesis by simp
    qed
  qed
qed

section \<open>Starting a battle\<close>

lemma start_battle_eq:
  "start_battle sc a d e s =
    (let new_id = ''battle_'' @ py_str (clock_seconds e);
         battle = \<lparr>battle_id = new_id, scenario = sc, attacker_persona = a,
                   defender_persona = d, current_phase = ''reconnaissance'', threat_level = 1,
                   audience_votes = [], battle_log = [], is_active = True\<rparr>
     in (s\<lparr>current_battle_id := Some new_id,
            battles := AList.update new_id battle (battles s),
            wire := wire s @ map (\<lambda>c. (c, battle_started battle))
                               (filter (\<lambda>c. c \<notin> failing e) (active_connections s))\<rparr>,
         Inr (''Battle started'', new_id, battle)))"
  by (simp add: start_battle_def Let_def broadcast_eq)

text \<open>
  C4. Right after \<open>start_battle scenario attacker defender\<close>, from any state and under
  any environment, \<open>get_current_battle\<close> returns the battle that the call created and
  returned: active, with an empty log and an empty tally, threat level 1 and phase
  "reconnaissance".
\<close>

theorem start_then_current:
  "get_current_battle (fst (start_battle sc a d e s)) =
     Some \<lparr>battle_id = ''battle_'' @ py_str (clock_seconds e), scenario = sc,
            attacker_persona = a, defender_persona = d,
            current_phase = ''reconnaissance'', threat_level = 1,
            audience_votes = [], battle_log = [], is_active = True\<rparr>
   \<and> snd (start_battle sc a d e s) =
     Inr (''Battle started'', ''battle_'' @ py_str (clock_seconds e),
          \<lparr>battle_id = ''battle_'' @ py_str (clock_seconds e), scenario = sc,
           attacker_persona = a, defender_persona = d,
           current_phase = ''reconnaissance'', threat_level = 1,
           audience_votes = [], battle_log = [], is_active = True\<rparr>)"
  by (simp add: start_battle_eq Let_def get_current_battle_def update_conv')

text \<open>
  C3, as stated, fails: two calls of \<open>start_battle\<close> that read the same whole second
  from the clock (here 1700000000, the second call made in the state the first one left)
  return the same identifier.
\<close>

theorem same_second_same_id:
  "started_id (start_battle ''hospital'' ''apt_group'' ''ai_defender''
      \<lparr>clock_seconds = 1700000000, clock_iso = [], label_draw = 0, technique_draw = 0,
       unit_draw = 0, failing = {}\<rparr> initial) = Some ''battle_1700000000''
   \<and> started_id (start_battle ''banking'' ''nation_state'' ''threat_hunter''
      \<lparr>clock_seconds = 1700000000, clock_iso = [], label_draw = 0, technique_draw = 0,
       unit_draw = 0, failing = {}\<rparr>
      (fst (start_battle ''hospital'' ''apt_group'' ''ai_defender''
         \<lparr>clock_seconds = 1700000000, clock_iso = [], label_draw = 0, technique_draw = 0,
          unit_draw = 0, failing = {}\<rparr> initial))) = Some ''battle_1700000000''"
  by (simp add: started_id_def start_battle_eq Let_def py_str_def digits.simps digit_char_def)

text \<open>
  C3, amended. Every \<open>start_battle\<close> call returns the non-empty identifier
  \<open>battle_\<close> followed by the clock's whole seconds in decimal, and two calls (in any
  states, with any arguments) return the same identifier exactly when they read the same
  whole second.
\<close>

theorem start_ids:
  "started_id (start_battle sc a d e s) = Some (''battle_'' @ py_str (clock_seconds e))
   \<and> ''battle_'' @ py_str (clock_seconds e) \<noteq> []
   \<and> (started_id (start_battle sc a d e s) = started_id (start_battle sc' a' d' e' s')
        \<longleftrightarrow> clock_seconds e = clock_seconds e')"
  using py_str_inj by (auto simp: started_id_def start_battle_eq Let_def)

theorem start_ids_witness:
  "started_id (start_battle ''hospital'' ''apt_group'' ''ai_defender''
      \<lparr>clock_seconds = 1700000000, clock_iso = [], label_draw = 0, technique_draw = 0,
       unit_draw = 0, failing = {}\<rparr> initial)
   \<noteq> started_id (start_battle ''hospital'' ''apt_group'' ''ai_defender''
      \<lparr>clock_seconds = 1700000001, clock_iso = [], label_draw = 0, technique_draw = 0,
       unit_draw = 0, failing = {}\<rparr> initial)"
proof -
  have "clock_seconds \<lparr>clock_seconds = 1700000000, clock_iso = [], label_draw = 0,
          technique_draw = 0, unit_draw = 0, failing = {}\<rparr>
        \<noteq> clock_seconds \<lparr>clock_seconds = 1700000001, clock_iso = [], label_draw = 0,
          technique_draw = 0, unit_draw = 0, failing = {}\<rparr>"
    by simp
  with start_ids
    [of "''hospital''" "''apt_group''" "''ai_defender''"
        "\<lparr>clock_seconds = 1700000000, clock_iso = [], label_draw = 0, technique_draw = 0,
          unit_draw = 0, failing = {}\<rparr>" initial
        "''hospital''" "''apt_group''" "''ai_defender''"
        "\<lparr>clock_seconds = 1700000001, clock_iso = [], label_draw = 0, technique_draw = 0,
          unit_draw = 0, failing = {}\<rparr>" initial]
  show ?thesis by blast
qed

section \<open>Casting votes\<close>

text \<open>
  C10. \<open>cast_vote\<close> never reads \<open>user_id\<close>: from the same state, with the same option
  and environment, two calls that differ only in \<open>user_id\<close> (the default
  \<open>"anonymous"\<close> included) leave the same state, with the same broadcasts on the wire,
  and return the same response or error.
\<close>

theorem user_id_ignored: "cast_vote option' user_id e s = cast_vote option' user_id' e s"
  by (simp add: cast_vote_def)

lemma get_current_battle_Some:
  "get_current_battle s = Some b \<longleftrightarrow>
     (\<exists>i. current_battle_id s = Some i \<and> i \<noteq> [] \<and> map_of (battles s) i = Some b)"
  by (auto simp: get_current_battle_def split: option.splits)

lemma cast_vote_current:
  assumes "current_battle_id s = Some i" "i \<noteq> []" "map_of (battles s) i = Some b"
  shows "cast_vote opt u e s =
     (s\<lparr>battles := AList.update i (b\<lparr>audience_votes := tally_add (audience_votes b) opt\<rparr>)
                      (battles s),
        wire := wire s @ map (\<lambda>c. (c, vote_update (tally_add (audience_votes b) opt)))
                           (filter (\<lambda>c. c \<notin> failing e) (active_connections s))\<rparr>,
      Inr (''Vote cast successfully'', tally_add (audience_votes b) opt))"
proof (cases "map_of (audience_votes b) opt")
  case None
  with assms show ?thesis
    by (simp add: cast_vote_def Let_def broadcast_eq update_conv' tally_add_def)
next
  case (Some n)
  with assms show ?thesis
    by (simp add: cast_vote_def Let_def broadcast_eq update_conv' tally_add_def)
qed

lemma cast_vote_none:
  assumes "get_current_battle s = None"
  shows "cast_vote opt u e s = (s, Inl (HTTPException 404 ''No active battle''))"
proof (cases "current_battle_id s")
  case None
  then show ?thesis by (simp add: cast_vote_def)
next
  case (Some i)
  with assms have "(if i = [] then None else map_of (battles s) i) = None"
    by (auto simp: get_current_battle_def split: if_splits)
  with Some show ?thesis by (simp add: cast_vote_def)
qed

lemma cast_vote_fst_current:
  assumes "get_current_battle s = Some b"
  shows "get_current_battle (fst (cast_vote opt u e s)) =
           Some (b\<lparr>audience_votes := tally_add (audience_votes b) opt\<rparr>)"
proof -
  from assms obtain i where i: "current_battle_id s = Some i" "i \<noteq> []" "map_of (battles s) i = Some b"
    unfolding get_current_battle_Some by (elim exE conjE)
  show ?thesis
    by (simp add: cast_vote_current[OF i] get_current_battle_def i update_conv')
qed

lemma cast_vote_snd:
  assumes "get_current_battle s = Some b"
  shows "snd (cast_vote opt u e s) =
           Inr (''Vote cast successfully'', tally_add (audience_votes b) opt)"
proof -
  from assms obtain i where i: "current_battle_id s = Some i" "i \<noteq> []" "map_of (battles s) i = Some b"
    unfolding get_current_battle_Some by (elim exE conjE)
  show ?thesis by (simp add: cast_vote_current[OF i])
qed

lemma cast_vote_wire:
  assumes "get_current_battle s = Some b"
  shows "wire (fst (cast_vote opt u e s)) =
           wire s @ map (\<lambda>c. (c, vote_update (tally_add (audience_votes b) opt)))
                      (filter (\<lambda>c. c \<notin> failing e) (active_connections s))"
proof -
  from assms obtain i where i: "current_battle_id s = Some i" "i \<noteq> []" "map_of (battles s) i = Some b"
    unfolding get_current_battle_Some by (elim exE conjE)
  show ?thesis by (simp add: cast_vote_current[OF i])
qed

lemma cast_votes_Cons:
  "cast_votes ((opt, u, e) # calls) s =
     (fst (cast_votes calls (fst (cast_vote opt u e s))),
      snd (cast_vote opt u e s) # snd (cast_votes calls (fst (cast_vote opt u e s))))"
  by (simp add: case_prod_beta)

lemma length_cast_votes: "length (snd (cast_votes calls s)) = length calls"
proof (induction calls arbitrary: s)
  case Nil
  then show ?case by simp
next
  case (Cons call calls)
  obtain opt u e where call: "call = (opt, u, e)" by (cases call) auto
  show ?case using Cons.IH[of "fst (cast_vote opt u e s)"]
    by (simp only: call cast_votes_Cons snd_conv list.size)
qed

lemma cast_votes_current:
  assumes "get_current_battle s = Some b"
  shows "get_current_battle (fst (cast_votes calls s)) =
           Some (b\<lparr>audience_votes := foldl tally_add (audience_votes b) (map fst calls)\<rparr>)"
  using assms
proof (induction calls arbitrary: s b)
  case Nil
  then show ?case by simp
next
  case (Cons call calls)
  obtain opt u e where call: "call = (opt, u, e)" by (cases call) auto
  have "get_current_battle (fst (cast_vote opt u e s)) =
          Some (b\<lparr>audience_votes := tally_add (audience_votes b) opt\<rparr>)"
    using Cons.prems by (rule cast_vote_fst_current)
  from Cons.IH[OF this] show ?case
    by (simp only: call cast_votes_Cons fst_conv list.map foldl_Cons) simp
qed

lemma cast_votes_last:
  assumes "get_current_battle s = Some b" "calls \<noteq> []"
  shows "last (snd (cast_votes calls s)) =
           Inr (''Vote cast successfully'', foldl tally_add (audience_votes b) (map fst calls))"
  using assms
proof (induction calls arbitrary: s b)
  case Nil
  then show ?case by simp
next
  case (Cons call calls)
  obtain opt u e where call: "call = (opt, u, e)" by (cases call) auto
  have step: "get_current_battle (fst (cast_vote opt u e s)) =
          Some (b\<lparr>audience_votes := tally_add (audience_votes b) opt\<rparr>)"
    using Cons.prems(1) by (rule cast_vote_fst_current)
  show ?case
  proof (cases "calls = []")
    case True
    then show ?thesis
      using cast_vote_snd[OF Cons.prems(1), of opt u e] by (simp add: call case_prod_beta)
  next
    case False
    then have ne: "snd (cast_votes calls (fst (cast_vote opt u e s))) \<noteq> []"
      using length_cast_votes[of calls "fst (cast_vote opt u e s)"] by auto
    from Cons.IH[OF step False] ne show ?thesis
      by (simp only: call cast_votes_Cons snd_conv last_ConsR list.map foldl_Cons fst_conv) simp
  qed
qed

lemma map_of_tally_add:
  "map_of (tally_add v opt) =
     (map_of v)(opt \<mapsto> (case map_of v opt of None \<Rightarrow> 0 | Some n \<Rightarrow> n) + 1)"
  by (cases "map_of v opt") (simp_all add: tally_add_def update_conv')

lemma map_of_foldl_tally_add:
  "map_of (foldl tally_add v opts) x =
     (if x \<in> set opts
      then Some ((case map_of v x of None \<Rightarrow> 0 | Some n \<Rightarrow> n) + int (count_list opts x))
      else map_of v x)"
proof (induction opts arbitrary: v)
  case Nil
  then show ?case by simp
next
  case (Cons opt opts)
  show ?case
    using Cons.IH[of "tally_add v opt"]
    by (cases "x = opt") (auto simp: map_of_tally_add split: option.splits)
qed

text \<open>
  C1. Take a state whose current battle has an empty tally (as \<open>start_battle\<close> leaves
  it) and any non-empty run of \<open>cast_vote\<close> calls. The last call returns a tally, the
  same one is stored in the current battle's \<open>audience_votes\<close>, and it maps every
  option cast in the run to the number of times it was cast and has no entry for any
  other option.
\<close>

theorem votes_counted:
  assumes "get_current_battle s = Some b" "audience_votes b = []" "calls \<noteq> []"
  shows "\<exists>v. last (snd (cast_votes calls s)) = Inr (''Vote cast successfully'', v)
      \<and> map_option audience_votes (get_current_battle (fst (cast_votes calls s))) = Some v
      \<and> (\<forall>x. map_of v x =
            (if x \<in> set (map fst calls) then Some (int (count_list (map fst calls) x)) else None))"
proof (intro exI conjI allI)
  show "last (snd (cast_votes calls s)) =
          Inr (''Vote cast successfully'', foldl tally_add [] (map fst calls))"
    using cast_votes_last[OF assms(1) assms(3)] by (simp add: assms(2))
  show "map_option audience_votes (get_current_battle (fst (cast_votes calls s))) =
          Some (foldl tally_add [] (map fst calls))"
    using cast_votes_current[OF assms(1), of calls] by (simp add: assms(2))
  show "map_of (foldl tally_add [] (map fst calls)) x =
          (if x \<in> set (map fst calls) then Some (int (count_list (map fst calls) x)) else None)"
    for x
    by (simp add: map_of_foldl_tally_add)
qed

theorem votes_counted_witness:
  "get_current_battle example_state = Some example_battle
   \<and> audience_votes example_battle = []
   \<and> [(''defender'', ''alice'', example_env), (''attacker'', ''anonymous'', example_env),
       (''defender'', ''bob'', example_env)] \<noteq> []
   \<and> (\<exists>v. last (snd (cast_votes
          [(''defender'', ''alice'', example_env), (''attacker'', ''anonymous'', example_env),
           (''defender'', ''bob'', example_env)] example_state))
          = Inr (''Vote cast successfully'', v)
        \<and> map_of v ''defender'' = Some 2 \<and> map_of v ''attacker'' = Some 1
        \<and> map_of v ''nobody'' = None)"
proof -
  have h1: "get_current_battle example_state = Some example_battle"
    by (simp add: get_current_battle_def example_state_def)
  have h2: "audience_votes example_battle = []"
    by (simp add: example_battle_def)
  have h3: "[(''defender'', ''alice'', example_env), (''attacker'', ''anonymous'', example_env),
       (''defender'', ''bob'', example_env)] \<noteq> []"
    by simp
  from votes_counted[OF h1 h2 h3] obtain v where
    l: "last (snd (cast_votes
          [(''defender'', ''alice'', example_env), (''attacker'', ''anonymous'', example_env),
           (''defender'', ''bob'', example_env)] example_state))
          = Inr (''Vote cast successfully'', v)" and
    m: "\<forall>x. map_of v x =
            (if x \<in> set (map fst [(''defender'', ''alice'', example_env),
                   (''attacker'', ''anonymous'', example_env), (''defender'', ''bob'', example_env)])
             then Some (int (count_list (map fst [(''defender'', ''alice'', example_env),
                   (''attacker'', ''anonymous'', example_env), (''defender'', ''bob'', example_env)]) x))
             else None)"
    by (elim exE conjE)
  have "map_of v ''defender'' = Some 2" using m[rule_format, of "''defender''"] by simp
  moreover have "map_of v ''attacker'' = Some 1" using m[rule_format, of "''attacker''"] by simp
  moreover have "map_of v ''nobody'' = None" using m[rule_format, of "''nobody''"] by simp
  ultimately show ?thesis using h1 h2 l by simp
qed

lemma get_current_battle_None:
  assumes "current_battle_id s \<noteq> Some []"
  shows "get_current_battle s = None \<longleftrightarrow>
     (current_battle_id s = None
      \<or> (\<exists>i. current_battle_id s = Some i \<and> i \<notin> fst ` set (battles s)))"
proof (cases "current_battle_id s")
  case None
  then show ?thesis by (simp add: get_current_battle_def)
next
  case (Some i)
  with assms have "i \<noteq> []" by simp
  with Some show ?thesis
    by (simp add: get_current_battle_def map_of_eq_None_iff)
qed

text \<open>
  C2. In every state the program can be in (\<open>current_battle_id\<close> is \<open>None\<close> or a
  non-empty identifier), \<open>cast_vote\<close> raises the 404 "No active battle" exactly when
  no battle was ever started or the current identifier is not a key of \<open>battles\<close>. It
  raises nothing else, and when it raises the state, the wire included, is unchanged.
  Otherwise it returns the tally with the option's count increased by one (from zero when
  new), stores it in the current battle, and has sent a \<open>vote_update\<close> with that tally
  to every registered session whose send does not fail.
\<close>

theorem vote_fails_iff_no_battle:
  assumes "current_battle_id s \<noteq> Some []"
  shows "(snd (cast_vote opt u e s) = Inl (HTTPException 404 ''No active battle'') \<longleftrightarrow>
            (current_battle_id s = None
             \<or> (\<exists>i. current_battle_id s = Some i \<and> i \<notin> fst ` set (battles s))))
    \<and> (isl (snd (cast_vote opt u e s)) \<longrightarrow>
          snd (cast_vote opt u e s) = Inl (HTTPException 404 ''No active battle'')
          \<and> fst (cast_vote opt u e s) = s)
    \<and> (\<not> isl (snd (cast_vote opt u e s)) \<longrightarrow>
          (\<exists>b v. get_current_battle s = Some b
             \<and> snd (cast_vote opt u e s) = Inr (''Vote cast successfully'', v)
             \<and> get_current_battle (fst (cast_vote opt u e s)) = Some (b\<lparr>audience_votes := v\<rparr>)
             \<and> map_of v = (map_of (audience_votes b))
                  (opt \<mapsto> (case map_of (audience_votes b) opt of None \<Rightarrow> 0 | Some n \<Rightarrow> n) + 1)
             \<and> wire (fst (cast_vote opt u e s)) =
                  wire s @ map (\<lambda>c. (c, vote_update v))
                             (filter (\<lambda>c. c \<notin> failing e) (active_connections s))))"
proof (cases "get_current_battle s")
  case None
  have cv: "cast_vote opt u e s = (s, Inl (HTTPException 404 ''No active battle''))"
    using None by (rule cast_vote_none)
  from None have "current_battle_id s = None
      \<or> (\<exists>i. current_battle_id s = Some i \<and> i \<notin> fst ` set (battles s))"
    using get_current_battle_None[OF assms] by simp
  then show ?thesis by (simp add: cv)
next
  case (Some b)
  have r: "snd (cast_vote opt u e s) =
      Inr (''Vote cast successfully'', tally_add (audience_votes b) opt)"
    using Some by (rule cast_vote_snd)
  have "get_current_battle s \<noteq> None" using Some by simp
  then have no: "\<not> (current_battle_id s = None
      \<or> (\<exists>i. current_battle_id s = Some i \<and> i \<notin> fst ` set (battles s)))"
    using get_current_battle_None[OF assms] by simp
  have ex: "\<exists>b v. get_current_battle s = Some b
             \<and> snd (cast_vote opt u e s) = Inr (''Vote cast successfully'', v)
             \<and> get_current_battle (fst (cast_vote opt u e s)) = Some (b\<lparr>audience_votes := v\<rparr>)
             \<and> map_of v = (map_of (audience_votes b))
                  (opt \<mapsto> (case map_of (audience_votes b) opt of None \<Rightarrow> 0 | Some n \<Rightarrow> n) + 1)
             \<and> wire (fst (cast_vote opt u e s)) =
                  wire s @ map (\<lambda>c. (c, vote_update v))
                             (filter (\<lambda>c. c \<notin> failing e) (active_connections s))"
    using Some r cast_vote_fst_current[OF Some, of opt u e] cast_vote_wire[OF Some, of opt u e]
      map_of_tally_add[of "audience_votes b" opt]
    by (intro exI[of _ b] exI[of _ "tally_add (audience_votes b) opt"]) simp
  from no ex show ?thesis by (simp add: r)
qed

theorem vote_fails_iff_no_battle_witness:
  "current_battle_id initial \<noteq> Some []
   \<and> isl (snd (cast_vote ''defender'' ''anonymous'' example_env initial))
   \<and> cast_vote ''defender'' ''anonymous'' example_env initial
       = (initial, Inl (HTTPException 404 ''No active battle''))
   \<and> current_battle_id example_state \<noteq> Some []
   \<and> \<not> isl (snd (cast_vote ''defender'' ''anonymous'' example_env example_state))
   \<and> (\<exists>v. snd (cast_vote ''defender'' ''anonymous'' example_env example_state)
             = Inr (''Vote cast successfully'', v)
          \<and> map_of v ''defender'' = Some 1
          \<and> wire (fst (cast_vote ''defender'' ''anonymous'' example_env example_state))
             = [(1, vote_update v), (3, vote_update v)])"
proof -
  have h0: "current_battle_id initial \<noteq> Some []" by (simp add: initial_def)
  have i0: "isl (snd (cast_vote ''defender'' ''anonymous'' example_env initial))"
    by (simp add: cast_vote_def initial_def)
  have h1: "current_battle_id example_state \<noteq> Some []" by (simp add: example_state_def)
  have g1: "get_current_battle example_state = Some example_battle"
    by (simp add: get_current_battle_def example_state_def)
  have i1: "\<not> isl (snd (cast_vote ''defender'' ''anonymous'' example_env example_state))"
    using vote_fails_iff_no_battle[OF h1, of "''defender''" "''anonymous''" example_env]
    by (auto simp: example_state_def)
  from vote_fails_iff_no_battle[OF h0, of "''defender''" "''anonymous''" example_env] i0
  have a: "cast_vote ''defender'' ''anonymous'' example_env initial
       = (initial, Inl (HTTPException 404 ''No active battle''))"
    by (simp add: prod_eq_iff)
  from vote_fails_iff_no_battle[OF h1, of "''defender''" "''anonymous''" example_env]
  have "\<not> isl (snd (cast_vote ''defender'' ''anonymous'' example_env example_state)) \<longrightarrow>
      (\<exists>b v. get_current_battle example_state = Some b
         \<and> snd (cast_vote ''defender'' ''anonymous'' example_env example_state)
             = Inr (''Vote cast successfully'', v)
         \<and> get_current_battle (fst (cast_vote ''defender'' ''anonymous'' example_env example_state))
             = Some (b\<lparr>audience_votes := v\<rparr>)
         \<and> map_of v = (map_of (audience_votes b))
              (''defender'' \<mapsto>
                 (case map_of (audience_votes b) ''defender'' of None \<Rightarrow> 0 | Some n \<Rightarrow> n) + 1)
         \<and> wire (fst (cast_vote ''defender'' ''anonymous'' example_env example_state)) =
              wire example_state @ map (\<lambda>c. (c, vote_update v))
                (filter (\<lambda>c. c \<notin> failing example_env) (active_connections example_state)))"
    by (elim conjE)
  from this[rule_format, OF i1] obtain b v where
    b: "get_current_battle example_state = Some b" and
    r: "snd (cast_vote ''defender'' ''anonymous'' example_env example_state)
             = Inr (''Vote cast successfully'', v)" and
    m: "map_of v = (map_of (audience_votes b))
          (''defender'' \<mapsto> (case map_of (audience_votes b) ''defender'' of None \<Rightarrow> 0 | Some n \<Rightarrow> n) + 1)" and
    w: "wire (fst (cast_vote ''defender'' ''anonymous'' example_env example_state)) =
          wire example_state @ map (\<lambda>c. (c, vote_update v))
             (filter (\<lambda>c. c \<notin> failing example_env) (active_connections example_state))"
    by (elim conjE exE)
  from b g1 have "b = example_battle" by simp
  with m have "map_of v ''defender'' = Some 1" by (simp add: example_battle_def)
  moreover from w have "wire (fst (cast_vote ''defender'' ''anonymous'' example_env example_state))
             = [(1, vote_update v), (3, vote_update v)]"
    by (simp add: example_state_def example_env_def)
  ultimately show ?thesis using h0 i0 a h1 i1 r by simp
qed

section \<open>Properties of the action generator\<close>

lemma floor_rat_numeral_div [simp]:
  "\<lfloor>numeral a / numeral b :: rat\<rfloor> = numeral a div numeral b"
  by (metis floor_divide_of_int_eq of_int_numeral)

lemma ceiling_rat_numeral_div [simp]:
  "\<lceil>numeral a / numeral b :: rat\<rceil> = - (- numeral a div numeral b)"
  by (metis ceiling_divide_eq_div of_int_numeral)

lemma bits_pos: "0 < n \<Longrightarrow> 0 < bits n"
  by (subst bits.simps) simp

lemma bits_bounds: "0 < n \<Longrightarrow> 2 ^ (bits n - 1) \<le> n \<and> n < 2 ^ bits n"
proof (induction n rule: bits.induct)
  case (1 n)
  have b: "bits n = Suc (bits (n div 2))" using "1.prems" by (subst bits.simps) simp
  show ?case
  proof (cases "n div 2 = 0")
    case True
    then have "n = 1" using "1.prems" by auto
    moreover have "bits (n div 2) = 0" using True by (subst bits.simps) simp
    ultimately show ?thesis using b by simp
  next
    case False
    then have pos: "0 < n div 2" by simp
    from "1.IH" "1.prems" pos
    have lo: "2 ^ (bits (n div 2) - 1) \<le> n div 2" and hi: "n div 2 < 2 ^ bits (n div 2)"
      by auto
    obtain k where k: "bits (n div 2) = Suc k" using bits_pos[OF pos] by (cases "bits (n div 2)") auto
    from lo k have "2 * 2 ^ k \<le> 2 * (n div 2)" by simp
    then have l: "2 ^ Suc k \<le> n" by simp
    from hi have "2 * (n div 2) + 2 \<le> 2 * 2 ^ bits (n div 2)" by simp
    then have h: "n < 2 ^ Suc (bits (n div 2))" by simp
    from l h show ?thesis by (simp add: b k)
  qed
qed

lemma ilog2_bounds:
  assumes "0 < x"
  shows "2 powi (ilog2 x) \<le> x \<and> x < 2 powi (ilog2 x + 1)"
proof (cases "1 \<le> x")
  case True
  define n where "n = nat \<lfloor>x\<rfloor>"
  have fl: "1 \<le> \<lfloor>x\<rfloor>" using True by simp
  then have n: "0 < n" "of_nat n = (of_int \<lfloor>x\<rfloor> :: rat)" by (simp_all add: n_def)
  from bits_bounds[OF n(1)] have lo: "2 ^ (bits n - 1) \<le> n" and hi: "n < 2 ^ bits n" by auto
  obtain k where k: "bits n = Suc k" using bits_pos[OF n(1)] by (cases "bits n") auto
  have e: "ilog2 x = int k" using True by (simp add: ilog2_def n_def[symmetric] k)
  from lo k have "(of_nat (2 ^ k) :: rat) \<le> of_nat n" by (simp only: of_nat_le_iff) simp
  then have "(2::rat) ^ k \<le> of_int \<lfloor>x\<rfloor>" by (simp add: n(2))
  also have "\<dots> \<le> x" by simp
  finally have l: "(2::rat) ^ k \<le> x" .
  from hi k have "n + 1 \<le> 2 ^ Suc k" by simp
  then have "(of_nat (n + 1) :: rat) \<le> of_nat (2 ^ Suc k)" by (simp only: of_nat_le_iff)
  then have "of_int \<lfloor>x\<rfloor> + 1 \<le> (2::rat) ^ Suc k" by (simp add: n(2))
  moreover have "x < of_int \<lfloor>x\<rfloor> + 1" by linarith
  ultimately have h: "x < (2::rat) ^ Suc k" by linarith
  have "2 powi (int k + 1) = (2::rat) ^ Suc k"
    by (metis of_nat_Suc add.commute power_int_of_nat semiring_1_class.of_nat_simps(2))
  with l h show ?thesis by (simp add: e)
next
  case False
  with assms have x: "0 < x" "x < 1" by simp_all
  define y where "y = 1 / x"
  have y: "1 < y" using x by (simp add: y_def)
  define m where "m = nat (\<lceil>y\<rceil> - 1)"
  have c: "2 \<le> \<lceil>y\<rceil>" using y by linarith
  then have m: "0 < m" "(of_nat m :: rat) = of_int \<lceil>y\<rceil> - 1" by (simp_all add: m_def)
  have my: "of_nat m < y" "y \<le> of_nat m + 1" using m(2) by linarith+
  from bits_bounds[OF m(1)] have lo: "2 ^ (bits m - 1) \<le> m" and hi: "m < 2 ^ bits m" by auto
  obtain k where k: "bits m = Suc k" using bits_pos[OF m(1)] by (cases "bits m") auto
  have e: "ilog2 x = - int (Suc k)"
    using False by (simp add: ilog2_def y_def[symmetric] m_def[symmetric] k)
  from hi k have "m + 1 \<le> 2 ^ Suc k" by simp
  then have "(of_nat (m + 1) :: rat) \<le> of_nat (2 ^ Suc k)" by (simp only: of_nat_le_iff)
  then have "y \<le> (2::rat) ^ Suc k" using my(2) by simp
  then have l: "1 / (2::rat) ^ Suc k \<le> x" using x(1) by (simp add: y_def field_simps)
  from lo k have "2 ^ k \<le> m" by simp
  then have "(of_nat (2 ^ k) :: rat) \<le> of_nat m" by (rule of_nat_mono)
  then have "(2::rat) ^ k \<le> of_nat m" by (simp only: of_nat_power of_nat_numeral)
  with my(1) have "(2::rat) ^ k < y" by linarith
  then have h: "x < 1 / (2::rat) ^ k" using x(1) by (simp add: y_def field_simps)
  have p1: "2 powi (- int (Suc k)) = 1 / (2::rat) ^ Suc k"
    by (simp only: power_int_minus power_int_of_nat inverse_eq_divide)
  have "- int (Suc k) + 1 = - int k" by simp
  then have p2: "2 powi (- int (Suc k) + 1) = 1 / (2::rat) ^ k"
    by (simp only: power_int_minus power_int_of_nat inverse_eq_divide)
  from l h show ?thesis by (simp only: e p1 p2)
qed

lemma ilog2_mono:
  assumes "0 < x" "x \<le> y"
  shows "ilog2 x \<le> ilog2 y"
proof (rule ccontr)
  assume "\<not> ilog2 x \<le> ilog2 y"
  then have "ilog2 y + 1 \<le> ilog2 x" by simp
  then have "(2::rat) powi (ilog2 y + 1) \<le> 2 powi (ilog2 x)"
    by (intro power_int_increasing) simp_all
  also have "\<dots> \<le> x" using ilog2_bounds[OF assms(1)] by simp
  also have "\<dots> \<le> y" by (rule assms(2))
  finally show False using ilog2_bounds[of y] assms by simp
qed

lemma rhe_floor: "\<lfloor>y\<rfloor> \<le> round_half_even y"
  by (simp add: round_half_even_def Let_def)

lemma rhe_of_int [simp]: "round_half_even (of_int n) = n"
  by (simp add: round_half_even_def Let_def)

lemma rhe_le_Suc_floor: "round_half_even y \<le> \<lfloor>y\<rfloor> + 1"
  by (simp add: round_half_even_def Let_def)

lemma rhe_mono:
  assumes "x \<le> y"
  shows "round_half_even x \<le> round_half_even y"
proof (cases "\<lfloor>x\<rfloor> < \<lfloor>y\<rfloor>")
  case True
  have "round_half_even x \<le> \<lfloor>x\<rfloor> + 1" by (rule rhe_le_Suc_floor)
  also have "\<dots> \<le> \<lfloor>y\<rfloor>" using True by simp
  also have "\<dots> \<le> round_half_even y" by (rule rhe_floor)
  finally show ?thesis .
next
  case False
  with assms have eq: "\<lfloor>x\<rfloor> = \<lfloor>y\<rfloor>" using floor_mono[OF assms] by simp
  with assms show ?thesis by (auto simp: round_half_even_def Let_def)
qed


lemma to_double_pos:
  assumes "0 < x"
  shows "to_double x =
    of_int (round_half_even (x / 2 powi (max (ilog2 x) (- 1022) - 52)))
      * 2 powi (max (ilog2 x) (- 1022) - 52)"
  using assms by (simp add: to_double_def Let_def)

lemma to_double_nonneg:
  assumes "0 \<le> x"
  shows "0 \<le> to_double x"
proof (cases "x = 0")
  case True
  then show ?thesis by (simp add: to_double_def)
next
  case False
  with assms have x: "0 < x" by simp
  have "0 \<le> x / 2 powi (max (ilog2 x) (- 1022) - 52)" using x by simp
  then have "0 \<le> \<lfloor>x / 2 powi (max (ilog2 x) (- 1022) - 52)\<rfloor>" by simp
  then have "0 \<le> round_half_even (x / 2 powi (max (ilog2 x) (- 1022) - 52))"
    using rhe_floor[of "x / 2 powi (max (ilog2 x) (- 1022) - 52)"] by linarith
  then show ?thesis by (simp add: to_double_pos[OF x])
qed

lemma to_double_mono:
  assumes "0 \<le> x" "x \<le> y"
  shows "to_double x \<le> to_double y"
proof (cases "x = 0")
  case True
  from assms have "0 \<le> y" by simp
  then have "0 \<le> to_double y" by (rule to_double_nonneg)
  with True show ?thesis by (simp add: to_double_def)
next
  case False
  with assms have x: "0 < x" and y: "0 < y" by simp_all
  define ex where "ex = max (ilog2 x) (- 1022)"
  define ey where "ey = max (ilog2 y) (- 1022)"
  have le: "ex \<le> ey" using ilog2_mono[OF x assms(2)] by (simp add: ex_def ey_def)
  have tx: "to_double x = of_int (round_half_even (x / 2 powi (ex - 52))) * 2 powi (ex - 52)"
    unfolding ex_def by (rule to_double_pos[OF x])
  have ty: "to_double y = of_int (round_half_even (y / 2 powi (ey - 52))) * 2 powi (ey - 52)"
    unfolding ey_def by (rule to_double_pos[OF y])
  show ?thesis
  proof (cases "ex = ey")
    case True
    have "x / 2 powi (ey - 52) \<le> y / 2 powi (ey - 52)"
      using assms(2) by (simp add: divide_right_mono)
    then have "round_half_even (x / 2 powi (ey - 52)) \<le> round_half_even (y / 2 powi (ey - 52))"
      by (rule rhe_mono)
    then have "(of_int (round_half_even (x / 2 powi (ey - 52))) :: rat)
        \<le> of_int (round_half_even (y / 2 powi (ey - 52)))"
      by simp
    then show ?thesis
      by (simp add: tx ty True mult_right_mono)
  next
    case False
    with le have lt: "ex < ey" by simp
    then have eyl: "ey = ilog2 y" by (simp add: ex_def ey_def max_def split: if_splits)
    have "x < 2 powi (ilog2 x + 1)" using ilog2_bounds[OF x] by simp
    also have "\<dots> \<le> 2 powi (ex + 1)"
      by (intro power_int_increasing) (simp_all add: ex_def)
    finally have "x < 2 powi (ex + 1)" .
    then have "x / 2 powi (ex - 52) < 2 powi (ex + 1) / 2 powi (ex - 52)"
      by (simp add: divide_strict_right_mono)
    also have "2 powi (ex + 1) / 2 powi (ex - 52) = (2::rat) powi 53"
      by (simp add: power_int_diff[symmetric])
    finally have "x / 2 powi (ex - 52) \<le> of_int (2 ^ 53)" by simp
    then have "round_half_even (x / 2 powi (ex - 52)) \<le> round_half_even (of_int (2 ^ 53))"
      by (rule rhe_mono)
    then have "round_half_even (x / 2 powi (ex - 52)) \<le> 2 ^ 53" by (simp only: rhe_of_int)
    then have "(of_int (round_half_even (x / 2 powi (ex - 52))) :: rat) \<le> of_int (2 ^ 53)"
      by (simp only: of_int_le_iff)
    then have "to_double x \<le> of_int (2 ^ 53) * 2 powi (ex - 52)"
      by (simp only: tx) (rule mult_right_mono, simp_all)
    also have "of_int (2 ^ 53) * 2 powi (ex - 52) = (2::rat) powi (ex + 1)"
    proof -
      have "(2::rat) powi (53 + (ex - 52)) = 2 powi 53 * 2 powi (ex - 52)"
        by (rule power_int_add) simp
      moreover have "53 + (ex - 52) = ex + 1" by simp
      ultimately show ?thesis by simp
    qed
    also have "\<dots> \<le> 2 powi ey"
      using lt by (intro power_int_increasing) simp_all
    finally have a: "to_double x \<le> 2 powi ey" .
    have "(2::rat) powi ey \<le> y" using ilog2_bounds[OF y] by (simp add: eyl)
    then have "2 powi ey / 2 powi (ey - 52) \<le> y / 2 powi (ey - 52)"
      by (simp add: divide_right_mono)
    moreover have "2 powi ey / 2 powi (ey - 52) = (2::rat) powi 52"
      by (simp add: power_int_diff[symmetric])
    ultimately have "of_int (2 ^ 52) \<le> y / 2 powi (ey - 52)" by simp
    then have "round_half_even (of_int (2 ^ 52)) \<le> round_half_even (y / 2 powi (ey - 52))"
      by (rule rhe_mono)
    then have "2 ^ 52 \<le> round_half_even (y / 2 powi (ey - 52))" by (simp only: rhe_of_int)
    then have "(of_int (2 ^ 52) :: rat) \<le> of_int (round_half_even (y / 2 powi (ey - 52)))"
      by (simp only: of_int_le_iff)
    then have "of_int (2 ^ 52) * 2 powi (ey - 52) \<le> to_double y"
      by (simp only: ty) (rule mult_right_mono, simp_all)
    moreover have "of_int (2 ^ 52) * 2 powi (ey - 52) = (2::rat) powi ey"
    proof -
      have "(2::rat) powi (52 + (ey - 52)) = 2 powi 52 * 2 powi (ey - 52)"
        by (rule power_int_add) simp
      moreover have "52 + (ey - 52) = ey" by simp
      ultimately show ?thesis by simp
    qed
    ultimately have "2 powi ey \<le> to_double y" by simp
    with a show ?thesis by linarith
  qed
qed

lemmas to_double_eval = to_double_def ilog2_def bits.simps round_half_even_def Let_def

lemma random_unit_range: "0 \<le> random_unit k \<and> random_unit k \<le> (2 ^ 53 - 1) / 2 ^ 53"
proof -
  have "k mod 2 ^ 53 < (2::nat) ^ 53" by simp
  then have "k mod 2 ^ 53 \<le> (2::nat) ^ 53 - 1" by linarith
  then have "(of_nat (k mod 2 ^ 53) :: rat) \<le> of_nat (2 ^ 53 - 1)"
    by (rule of_nat_mono)
  also have "(of_nat (2 ^ 53 - 1) :: rat) = 2 ^ 53 - 1" by simp
  finally have "(of_nat (k mod 2 ^ 53) :: rat) / 2 ^ 53 \<le> (2 ^ 53 - 1) / 2 ^ 53"
    by (simp add: divide_right_mono)
  then show ?thesis by (simp add: random_unit_def)
qed

lemma uniform_between:
  assumes a: "0 \<le> to_double a" and d: "0 \<le> to_double (to_double b - to_double a)"
  shows "to_double (to_double a) \<le> uniform a b k
       \<and> uniform a b k \<le>
           to_double (to_double a
             + to_double (to_double (to_double b - to_double a) * ((2 ^ 53 - 1) / 2 ^ 53)))"
proof -
  define r where "r = random_unit k"
  define D where "D = to_double (to_double b - to_double a)"
  have r: "0 \<le> r" "r \<le> (2 ^ 53 - 1) / 2 ^ 53" using random_unit_range[of k] by (simp_all add: r_def)
  have D: "0 \<le> D" using d by (simp add: D_def)
  have p0: "0 \<le> D * r" using D r(1) by simp
  have p1: "D * r \<le> D * ((2 ^ 53 - 1) / 2 ^ 53)" using D r(2) by (rule mult_left_mono[rotated])
  have t0: "0 \<le> to_double (D * r)" using p0 by (rule to_double_nonneg)
  have t1: "to_double (D * r) \<le> to_double (D * ((2 ^ 53 - 1) / 2 ^ 53))"
    using p0 p1 by (rule to_double_mono)
  have lo: "to_double (to_double a) \<le> to_double (to_double a + to_double (D * r))"
    using a t0 by (intro to_double_mono) simp_all
  have hi: "to_double (to_double a + to_double (D * r))
      \<le> to_double (to_double a + to_double (D * ((2 ^ 53 - 1) / 2 ^ 53)))"
    using a t0 t1 by (intro to_double_mono) simp_all
  have u: "uniform a b k = to_double (to_double a + to_double (D * r))"
    by (simp add: uniform_def Let_def D_def r_def)
  from lo hi show ?thesis unfolding u D_def by simp
qed

lemma double_0_3: "to_double (3 / 10) = 5404319552844595 / 18014398509481984"
  by (simp add: to_double_eval)

lemma double_0_9: "to_double (9 / 10) = 8106479329266893 / 9007199254740992"
  by (simp add: to_double_eval)

lemma double_0_4: "to_double (4 / 10) = 3602879701896397 / 9007199254740992"
  by (simp add: to_double_eval)

lemma double_0_95: "to_double (95 / 100) = 4278419646001971 / 4503599627370496"
  by (simp add: to_double_eval)

lemma span_attack:
  "to_double (to_double (9 / 10) - to_double (3 / 10)) = 1351079888211149 / 2251799813685248"
  by (simp only: double_0_3 double_0_9) (simp add: to_double_eval)

lemma span_defense:
  "to_double (to_double (95 / 100) - to_double (4 / 10)) = 4953959590107545 / 9007199254740992"
  by (simp only: double_0_4 double_0_95) (simp add: to_double_eval)

lemma top_attack:
  "to_double (to_double (3 / 10)
     + to_double (to_double (to_double (9 / 10) - to_double (3 / 10)) * ((2 ^ 53 - 1) / 2 ^ 53)))
   = 2026619832316723 / 2251799813685248"
proof -
  have "to_double (1351079888211149 / 2251799813685248 * ((2 ^ 53 - 1) / 2 ^ 53))
      = 5404319552844595 / 9007199254740992"
    by (simp add: to_double_eval)
  moreover have "to_double (5404319552844595 / 18014398509481984
      + 5404319552844595 / 9007199254740992) = 2026619832316723 / 2251799813685248"
    by (simp add: to_double_eval)
  ultimately show ?thesis by (simp only: span_attack) (simp only: double_0_3)
qed

lemma top_defense:
  "to_double (to_double (4 / 10)
     + to_double (to_double (to_double (95 / 100) - to_double (4 / 10)) * ((2 ^ 53 - 1) / 2 ^ 53)))
   = 8556839292003941 / 9007199254740992"
proof -
  have "to_double (4953959590107545 / 9007199254740992 * ((2 ^ 53 - 1) / 2 ^ 53))
      = 619244948763443 / 1125899906842624"
    by (simp add: to_double_eval)
  moreover have "to_double (3602879701896397 / 9007199254740992
      + 619244948763443 / 1125899906842624) = 8556839292003941 / 9007199254740992"
    by (simp add: to_double_eval)
  ultimately show ?thesis by (simp only: span_defense) (simp only: double_0_4)
qed

lemma fix_0_3: "to_double (to_double (3 / 10)) = to_double (3 / 10)"
  by (simp only: double_0_3) (simp add: to_double_eval)

lemma fix_0_4: "to_double (to_double (4 / 10)) = to_double (4 / 10)"
  by (simp only: double_0_4) (simp add: to_double_eval)

lemma uniform_attack_range:
  "to_double (3 / 10) \<le> uniform (3 / 10) (9 / 10) k \<and> uniform (3 / 10) (9 / 10) k < to_double (9 / 10)"
proof -
  have a: "0 \<le> to_double (3 / 10)" unfolding double_0_3 by simp
  have d: "0 \<le> to_double (to_double (9 / 10) - to_double (3 / 10))"
    unfolding span_attack by simp
  from uniform_between[OF a d, of k]
  have "to_double (3 / 10) \<le> uniform (3 / 10) (9 / 10) k"
    and "uniform (3 / 10) (9 / 10) k \<le> 2026619832316723 / 2251799813685248"
    by (simp_all only: fix_0_3 top_attack)
  moreover have "(2026619832316723 / 2251799813685248 :: rat) < to_double (9 / 10)"
    unfolding double_0_9 by simp
  ultimately show ?thesis by linarith
qed

lemma uniform_defense_range:
  "to_double (4 / 10) \<le> uniform (4 / 10) (95 / 100) k
   \<and> uniform (4 / 10) (95 / 100) k < to_double (95 / 100)"
proof -
  have a: "0 \<le> to_double (4 / 10)" unfolding double_0_4 by simp
  have d: "0 \<le> to_double (to_double (95 / 100) - to_double (4 / 10))"
    unfolding span_defense by simp
  from uniform_between[OF a d, of k]
  have "to_double (4 / 10) \<le> uniform (4 / 10) (95 / 100) k"
    and "uniform (4 / 10) (95 / 100) k \<le> 8556839292003941 / 9007199254740992"
    by (simp_all only: fix_0_4 top_defense)
  moreover have "(8556839292003941 / 9007199254740992 :: rat) < to_double (95 / 100)"
    unfolding double_0_95 by simp
  ultimately show ?thesis by linarith
qed

text \<open>
  The rounding is the one the library documents for \<open>uniform\<close>: the end point \<open>b\<close> can
  be reached, as in \<open>uniform(1.0, 2.0)\<close> at the largest value of \<open>random()\<close>. For the two
  calls of \<open>generate_ai_action\<close> it is not.
\<close>

lemma uniform_reaches_end_point: "uniform 1 2 (2 ^ 53 - 1) = 2"
  by (simp add: uniform_def random_unit_def to_double_eval)

lemma choice_mem: "seq \<noteq> [] \<Longrightarrow> \<exists>x. choice seq k = Inr x \<and> x \<in> set seq"
  by (simp add: choice_def)

lemma attacker_has_techniques:
  "map_of ATTACKER_PERSONAS tag = Some attacker \<Longrightarrow> techniques attacker \<noteq> []"
proof -
  assume "map_of ATTACKER_PERSONAS tag = Some attacker"
  then have "(tag, attacker) \<in> set ATTACKER_PERSONAS" by (rule map_of_SomeD)
  then show ?thesis by (auto simp: ATTACKER_PERSONAS_def)
qed

lemma generate_attack:
  assumes "map_of ATTACKER_PERSONAS (attacker_persona battle) = Some attacker"
    and "map_of DEFENDER_PERSONAS (defender_persona battle) = Some defender"
    and "choice [''attack'', ''defend'', ''reconnaissance'', ''escalation''] (label_draw e)
           = Inr ''attack''"
  shows "\<exists>technique. technique \<in> set (techniques attacker)
      \<and> generate_ai_action battle user_input e =
          Inr (Attack (clock_iso e) (a_name attacker) technique
                 (a_name attacker @ '' launches '' @ technique @ '' attack'')
                 (a_threat_level attacker) (uniform (3 / 10) (9 / 10) (unit_draw e)))"
proof -
  from attacker_has_techniques[OF assms(1)] choice_mem[of "techniques attacker" "technique_draw e"]
  obtain technique where t: "choice (techniques attacker) (technique_draw e) = Inr technique"
    "technique \<in> set (techniques attacker)" by blast
  show ?thesis
    by (rule exI[of _ technique]) (simp add: generate_ai_action_def assms t)
qed

lemma generate_defense:
  assumes "map_of ATTACKER_PERSONAS (attacker_persona battle) = Some attacker"
    and "map_of DEFENDER_PERSONAS (defender_persona battle) = Some defender"
    and "choice [''attack'', ''defend'', ''reconnaissance'', ''escalation''] (label_draw e)
           = Inr label"
    and "label \<noteq> ''attack''"
  shows "generate_ai_action battle user_input e =
          Inr (Defense (clock_iso e) (d_name defender) (strategy defender)
                 (d_name defender @ '' implements '' @ strategy defender)
                 (uniform (4 / 10) (95 / 100) (unit_draw e)))"
  by (simp add: generate_ai_action_def assms)

text \<open>
  C6. For a battle whose attacker and defender tags are keys of the static tables,
  \<open>generate_ai_action\<close> raises nothing and returns either an attack, whose technique is
  in the attacker persona's technique list and whose \<open>success_probability\<close> is in
  \<open>[0.3, 0.9)\<close>, or a defense, whose \<open>effectiveness\<close> is in \<open>[0.4, 0.95)\<close>. This holds
  for every output of the random generator. The values are doubles, and the end points
  are the doubles that Python reads from these literals, as in \<open>0.3 <= p < 0.9\<close>.
\<close>

theorem generated_action_ranges:
  assumes "map_of ATTACKER_PERSONAS (attacker_persona battle) = Some attacker"
    and "map_of DEFENDER_PERSONAS (defender_persona battle) = Some defender"
  shows "case generate_ai_action battle user_input e of
           Inl err \<Rightarrow> False
         | Inr (Attack ts actor technique descr level p) \<Rightarrow>
             technique \<in> set (techniques attacker)
             \<and> to_double (3 / 10) \<le> p \<and> p < to_double (9 / 10)
         | Inr (Defense ts actor strat descr eff) \<Rightarrow>
             to_double (4 / 10) \<le> eff \<and> eff < to_double (95 / 100)"
proof -
  obtain label where
    l: "choice [''attack'', ''defend'', ''reconnaissance'', ''escalation''] (label_draw e) = Inr label"
    using choice_mem[of "[''attack'', ''defend'', ''reconnaissance'', ''escalation'']" "label_draw e"]
    by blast
  show ?thesis
  proof (cases "label = ''attack''")
    case True
    with l generate_attack[OF assms, of e user_input] obtain technique where
      "technique \<in> set (techniques attacker)"
      "generate_ai_action battle user_input e =
          Inr (Attack (clock_iso e) (a_name attacker) technique
                 (a_name attacker @ '' launches '' @ technique @ '' attack'')
                 (a_threat_level attacker) (uniform (3 / 10) (9 / 10) (unit_draw e)))"
      by blast
    then show ?thesis
      using uniform_attack_range[of "unit_draw e"] by simp
  next
    case False
    from generate_defense[OF assms l False, of user_input] show ?thesis
      using uniform_defense_range[of "unit_draw e"] by simp
  qed
qed

theorem generated_action_ranges_witness:
  "map_of ATTACKER_PERSONAS (attacker_persona example_battle) =
     Some \<lparr>a_name = ''APT Group'',
            a_description = ''Advanced Persistent Threat with sophisticated methods'',
            a_threat_level = 7,
            techniques = [''Zero-day Exploits'', ''Living off the Land'', ''Supply Chain Attacks'']\<rparr>
   \<and> map_of DEFENDER_PERSONAS (defender_persona example_battle) =
     Some \<lparr>d_name = ''AI Defender'',
            d_description = ''Machine learning powered defense system'',
            strategy = ''Automated threat detection and response''\<rparr>
   \<and> generate_ai_action example_battle None example_env =
     Inr (Attack ''2023-11-14T22:13:20'' ''APT Group'' ''Zero-day Exploits''
            ''APT Group launches Zero-day Exploits attack'' 7
            (5404319552844595 / 18014398509481984))
   \<and> (case generate_ai_action example_battle None example_env of
           Inl err \<Rightarrow> False
         | Inr (Attack ts actor technique descr level p) \<Rightarrow>
             technique \<in> set [''Zero-day Exploits'', ''Living off the Land'', ''Supply Chain Attacks'']
             \<and> to_double (3 / 10) \<le> p \<and> p < to_double (9 / 10)
         | Inr (Defense ts actor strat descr eff) \<Rightarrow>
             to_double (4 / 10) \<le> eff \<and> eff < to_double (95 / 100))"
proof -
  have a: "map_of ATTACKER_PERSONAS (attacker_persona example_battle) =
     Some \<lparr>a_name = ''APT Group'',
            a_description = ''Advanced Persistent Threat with sophisticated methods'',
            a_threat_level = 7,
            techniques = [''Zero-day Exploits'', ''Living off the Land'', ''Supply Chain Attacks'']\<rparr>"
    by (simp add: ATTACKER_PERSONAS_def example_battle_def)
  have d: "map_of DEFENDER_PERSONAS (defender_persona example_battle) =
     Some \<lparr>d_name = ''AI Defender'',
            d_description = ''Machine learning powered defense system'',
            strategy = ''Automated threat detection and response''\<rparr>"
    by (simp add: DEFENDER_PERSONAS_def example_battle_def)
  have g: "generate_ai_action example_battle None example_env =
     Inr (Attack ''2023-11-14T22:13:20'' ''APT Group'' ''Zero-day Exploits''
            ''APT Group launches Zero-day Exploits attack'' 7
            (5404319552844595 / 18014398509481984))"
    by (simp add: generate_ai_action_def a d choice_def uniform_def random_unit_def
          example_env_def to_double_eval)
  from generated_action_ranges[OF a d, of None example_env] a d g show ?thesis by simp
qed

text \<open>
  C9. \<open>generate_ai_action\<close> never reads \<open>user_input\<close>: its result is the same for every
  value of it. When the persona tags are known and the label drawn is not \<open>"attack"\<close>,
  the action is the defense built from the defender persona, and it is the same action
  whichever of the other labels is drawn.
\<close>

theorem other_labels_defend:
  "(\<forall>user_input'. generate_ai_action battle user_input' e = generate_ai_action battle user_input e)
   \<and> (map_of ATTACKER_PERSONAS (attacker_persona battle) = Some attacker \<longrightarrow>
      map_of DEFENDER_PERSONAS (defender_persona battle) = Some defender \<longrightarrow>
      choice [''attack'', ''defend'', ''reconnaissance'', ''escalation''] (label_draw e) = Inr label \<longrightarrow>
      label \<noteq> ''attack'' \<longrightarrow>
        generate_ai_action battle user_input e =
          Inr (Defense (clock_iso e) (d_name defender) (strategy defender)
                 (d_name defender @ '' implements '' @ strategy defender)
                 (uniform (4 / 10) (95 / 100) (unit_draw e)))
        \<and> (\<forall>k label'.
              choice [''attack'', ''defend'', ''reconnaissance'', ''escalation''] k = Inr label' \<longrightarrow>
              label' \<noteq> ''attack'' \<longrightarrow>
              generate_ai_action battle user_input (e\<lparr>label_draw := k\<rparr>) =
                generate_ai_action battle user_input e))"
proof (intro conjI allI impI)
  fix user_input'
  show "generate_ai_action battle user_input' e = generate_ai_action battle user_input e"
    by (simp add: generate_ai_action_def)
next
  assume h: "map_of ATTACKER_PERSONAS (attacker_persona battle) = Some attacker"
    "map_of DEFENDER_PERSONAS (defender_persona battle) = Some defender"
    "choice [''attack'', ''defend'', ''reconnaissance'', ''escalation''] (label_draw e) = Inr label"
    "label \<noteq> ''attack''"
  show "generate_ai_action battle user_input e =
          Inr (Defense (clock_iso e) (d_name defender) (strategy defender)
                 (d_name defender @ '' implements '' @ strategy defender)
                 (uniform (4 / 10) (95 / 100) (unit_draw e)))"
    using h by (rule generate_defense)
  fix k label'
  assume k: "choice [''attack'', ''defend'', ''reconnaissance'', ''escalation''] k = Inr label'"
    "label' \<noteq> ''attack''"
  have "generate_ai_action battle user_input (e\<lparr>label_draw := k\<rparr>) =
          Inr (Defense (clock_iso (e\<lparr>label_draw := k\<rparr>)) (d_name defender) (strategy defender)
                 (d_name defender @ '' implements '' @ strategy defender)
                 (uniform (4 / 10) (95 / 100) (unit_draw (e\<lparr>label_draw := k\<rparr>))))"
    using h(1,2) k by (intro generate_defense[where label = label']) simp_all
  then show "generate_ai_action battle user_input (e\<lparr>label_draw := k\<rparr>) =
                generate_ai_action battle user_input e"
    using generate_defense[OF h, of user_input] by simp
qed

theorem other_labels_defend_witness:
  "map_of ATTACKER_PERSONAS (attacker_persona example_battle) =
     Some \<lparr>a_name = ''APT Group'',
            a_description = ''Advanced Persistent Threat with sophisticated methods'',
            a_threat_level = 7,
            techniques = [''Zero-day Exploits'', ''Living off the Land'', ''Supply Chain Attacks'']\<rparr>
   \<and> map_of DEFENDER_PERSONAS (defender_persona example_battle) =
     Some \<lparr>d_name = ''AI Defender'',
            d_description = ''Machine learning powered defense system'',
            strategy = ''Automated threat detection and response''\<rparr>
   \<and> choice [''attack'', ''defend'', ''reconnaissance'', ''escalation'']
        (label_draw (example_env\<lparr>label_draw := 2\<rparr>)) = Inr ''reconnaissance''
   \<and> ''reconnaissance'' \<noteq> ''attack''
   \<and> choice [''attack'', ''defend'', ''reconnaissance'', ''escalation''] 3 = Inr ''escalation''
   \<and> ''escalation'' \<noteq> ''attack''
   \<and> generate_ai_action example_battle (Some (JStr ''isolate the ward'')) (example_env\<lparr>label_draw := 2\<rparr>) =
     Inr (Defense ''2023-11-14T22:13:20'' ''AI Defender'' ''Automated threat detection and response''
            ''AI Defender implements Automated threat detection and response''
            (3602879701896397 / 9007199254740992))
   \<and> generate_ai_action example_battle None (example_env\<lparr>label_draw := 2\<rparr>) =
     generate_ai_action example_battle (Some (JStr ''isolate the ward'')) (example_env\<lparr>label_draw := 2\<rparr>)
   \<and> generate_ai_action example_battle (Some (JStr ''isolate the ward''))
        (example_env\<lparr>label_draw := 2, label_draw := 3\<rparr>) =
     generate_ai_action example_battle (Some (JStr ''isolate the ward'')) (example_env\<lparr>label_draw := 2\<rparr>)"
proof -
  have a: "map_of ATTACKER_PERSONAS (attacker_persona example_battle) =
     Some \<lparr>a_name = ''APT Group'',
            a_description = ''Advanced Persistent Threat with sophisticated methods'',
            a_threat_level = 7,
            techniques = [''Zero-day Exploits'', ''Living off the Land'', ''Supply Chain Attacks'']\<rparr>"
    by (simp add: ATTACKER_PERSONAS_def example_battle_def)
  have d: "map_of DEFENDER_PERSONAS (defender_persona example_battle) =
     Some \<lparr>d_name = ''AI Defender'',
            d_description = ''Machine learning powered defense system'',
            strategy = ''Automated threat detection and response''\<rparr>"
    by (simp add: DEFENDER_PERSONAS_def example_battle_def)
  have c: "choice [''attack'', ''defend'', ''reconnaissance'', ''escalation'']
        (label_draw (example_env\<lparr>label_draw := 2\<rparr>)) = Inr ''reconnaissance''"
    by (simp add: choice_def)
  have n: "''reconnaissance'' \<noteq> ''attack''" by simp
  have c3: "choice [''attack'', ''defend'', ''reconnaissance'', ''escalation''] 3 = Inr ''escalation''"
    by (simp add: choice_def)
  have n3: "''escalation'' \<noteq> ''attack''" by simp
  note inst = other_labels_defend[where battle = example_battle
      and user_input = "Some (JStr ''isolate the ward'')"
      and e = "example_env\<lparr>label_draw := 2\<rparr>"
      and attacker = "\<lparr>a_name = ''APT Group'',
            a_description = ''Advanced Persistent Threat with sophisticated methods'',
            a_threat_level = 7,
            techniques = [''Zero-day Exploits'', ''Living off the Land'', ''Supply Chain Attacks'']\<rparr>"
      and defender = "\<lparr>d_name = ''AI Defender'',
            d_description = ''Machine learning powered defense system'',
            strategy = ''Automated threat detection and response''\<rparr>"
      and label = "''reconnaissance''"]
  from inst have ui: "generate_ai_action example_battle None (example_env\<lparr>label_draw := 2\<rparr>) =
     generate_ai_action example_battle (Some (JStr ''isolate the ward'')) (example_env\<lparr>label_draw := 2\<rparr>)"
    by (elim conjE allE)
  from inst a d c n have g: "generate_ai_action example_battle (Some (JStr ''isolate the ward''))
        (example_env\<lparr>label_draw := 2\<rparr>) =
     Inr (Defense ''2023-11-14T22:13:20'' ''AI Defender'' ''Automated threat detection and response''
            ''AI Defender implements Automated threat detection and response''
            (3602879701896397 / 9007199254740992))"
    by (simp add: uniform_def random_unit_def example_env_def to_double_eval)
  from inst a d c n have "\<forall>k label'.
      choice [''attack'', ''defend'', ''reconnaissance'', ''escalation''] k = Inr label' \<longrightarrow>
      label' \<noteq> ''attack'' \<longrightarrow>
      generate_ai_action example_battle (Some (JStr ''isolate the ward''))
        (example_env\<lparr>label_draw := 2, label_draw := k\<rparr>) =
      generate_ai_action example_battle (Some (JStr ''isolate the ward''))
        (example_env\<lparr>label_draw := 2\<rparr>)"
    by blast
  from this[rule_format, OF c3 n3] a d c n c3 n3 g ui show ?thesis by simp
qed

section \<open>Properties of the session gateway\<close>

lemma on_message_malformed:
  assumes "malformed data"
  shows "\<exists>err. on_message data e s = (s, Inl err)"
proof (cases data)
  case Undecodable
  then show ?thesis by (simp add: on_message_def)
next
  case (Decoded message)
  with assms obtain err where "subscript message ''type'' = Inl err"
    by (cases "subscript message ''type''") (simp_all add: malformed_def)
  with Decoded show ?thesis by (simp add: on_message_def)
qed

lemma on_message_other_type:
  assumes "other_type data"
  shows "on_message data e s = (s, Inr ())"
proof (cases data)
  case Undecodable
  with assms show ?thesis by (simp add: other_type_def)
next
  case (Decoded message)
  with assms obtain t where "subscript message ''type'' = Inr t" "t \<noteq> JStr ''battle_action''"
    by (cases "subscript message ''type''") (simp_all add: other_type_def)
  with Decoded show ?thesis by (simp add: on_message_def)
qed

text \<open>
  C8. A message whose \<open>"type"\<close> is something other than \<open>"battle_action"\<close> leaves the
  whole state unchanged (battles, registry, and the wire: nothing is broadcast) and the
  loop goes on with the next message. A malformed payload (undecodable text, or no
  readable \<open>"type"\<close>) raises out of the handler of that session with the state
  unchanged too. In both cases any later broadcast does what it would have done.
\<close>

theorem bad_messages_change_nothing:
  "(other_type data \<longrightarrow>
      on_message data e s = (s, Inr ())
      \<and> serve websocket ((Receive data, e) # rest) s = serve websocket rest s)
   \<and> (malformed data \<longrightarrow>
      (\<exists>err. on_message data e s = (s, Inl err)
         \<and> serve websocket ((Receive data, e) # rest) s = (s, Raised err)))
   \<and> (other_type data \<or> malformed data \<longrightarrow>
      broadcast e' m (fst (on_message data e s)) = broadcast e' m s)"
proof (intro conjI impI)
  assume o: "other_type data"
  show "on_message data e s = (s, Inr ())" using o by (rule on_message_other_type)
  then show "serve websocket ((Receive data, e) # rest) s = serve websocket rest s" by simp
next
  assume "malformed data"
  then obtain err where "on_message data e s = (s, Inl err)"
    using on_message_malformed by blast
  then show "\<exists>err. on_message data e s = (s, Inl err)
         \<and> serve websocket ((Receive data, e) # rest) s = (s, Raised err)"
    by simp
next
  assume "other_type data \<or> malformed data"
  then have "fst (on_message data e s) = s"
    using on_message_other_type[of data e s] on_message_malformed[of data e s] by auto
  then show "broadcast e' m (fst (on_message data e s)) = broadcast e' m s" by simp
qed

theorem bad_messages_change_nothing_witness:
  "other_type (Decoded (JObj [(''type'', JStr ''ping'')]))
   \<and> serve 1 [(Receive (Decoded (JObj [(''type'', JStr ''ping'')])), example_env)] example_state
       = (example_state, Awaiting)
   \<and> malformed Undecodable
   \<and> fst (serve 1 [(Receive Undecodable, example_env)] example_state) = example_state
   \<and> malformed (Decoded (JObj [(''user_input'', JStr ''hello'')]))
   \<and> fst (serve 1 [(Receive (Decoded (JObj [(''user_input'', JStr ''hello'')])), example_env)]
          example_state) = example_state
   \<and> broadcast example_env (vote_update [])
        (fst (on_message Undecodable example_env example_state))
       = broadcast example_env (vote_update []) example_state"
proof -
  have o: "other_type (Decoded (JObj [(''type'', JStr ''ping'')]))"
    by (simp add: other_type_def)
  have m1: "malformed Undecodable" by (simp add: malformed_def)
  have m2: "malformed (Decoded (JObj [(''user_input'', JStr ''hello'')]))"
    by (simp add: malformed_def)
  note i1 = bad_messages_change_nothing
    [where data = "Decoded (JObj [(''type'', JStr ''ping'')])" and e = example_env
       and s = example_state and websocket = 1 and rest = "[]"]
  note i2 = bad_messages_change_nothing
    [where data = Undecodable and e = example_env and s = example_state and websocket = 1
       and rest = "[]" and e' = example_env and m = "vote_update []"]
  note i3 = bad_messages_change_nothing
    [where data = "Decoded (JObj [(''user_input'', JStr ''hello'')])" and e = example_env
       and s = example_state and websocket = 1 and rest = "[]"]
  from i1[THEN conjunct1, rule_format, OF o]
  have a: "serve 1 [(Receive (Decoded (JObj [(''type'', JStr ''ping'')])), example_env)]
      example_state = (example_state, Awaiting)"
    by (simp del: serve.simps(3) add: serve.simps(1))
  from i2[THEN conjunct2, THEN conjunct1, rule_format, OF m1] obtain err where
    "serve 1 [(Receive Undecodable, example_env)] example_state = (example_state, Raised err)"
    by (elim exE conjE)
  then have b: "fst (serve 1 [(Receive Undecodable, example_env)] example_state) = example_state"
    by (simp only: fst_conv)
  from m1 have "other_type Undecodable \<or> malformed Undecodable" by (rule disjI2)
  from i2[THEN conjunct2, THEN conjunct2, rule_format, OF this]
  have d: "broadcast example_env (vote_update [])
        (fst (on_message Undecodable example_env example_state))
       = broadcast example_env (vote_update []) example_state" .
  from i3[THEN conjunct2, THEN conjunct1, rule_format, OF m2] obtain err' where
    "serve 1 [(Receive (Decoded (JObj [(''user_input'', JStr ''hello'')])), example_env)]
       example_state = (example_state, Raised err')"
    by (elim exE conjE)
  then have c: "fst (serve 1 [(Receive (Decoded (JObj [(''user_input'', JStr ''hello'')])),
       example_env)] example_state) = example_state"
    by (simp only: fst_conv)
  from o a m1 b m2 c d show ?thesis by (intro conjI)
qed

lemma endpoint_disconnect_unregisters:
  assumes "websocket \<notin> set (active_connections s)"
  shows "websocket_endpoint websocket [(Disconnect, e)] s = (s, Returned)"
  using assms
  by (simp add: websocket_endpoint_def connect_def disconnect_def remove1_append)

lemma endpoint_malformed_stays_registered:
  assumes "malformed data"
  shows "\<exists>err. websocket_endpoint websocket ((Receive data, e) # rest) s
           = (connect websocket s, Raised err)
         \<and> websocket \<in> set (active_connections (connect websocket s))"
proof -
  from on_message_malformed[OF assms, of e "connect websocket s"] obtain err where
    "on_message data e (connect websocket s) = (connect websocket s, Inl err)" ..
  then show ?thesis
    by (intro exI[of _ err]) (simp add: websocket_endpoint_def, simp add: connect_def)
qed

text \<open>
  C7 says that the session is unregistered on every exit of the loop. The handler does
  so on \<open>WebSocketDisconnect\<close> only: session 4 connects to the example state and sends
  a text that is not JSON, or the JSON object \<open>{}\<close>; the exception leaves the handler and
  session 4 is still in \<open>active_connections\<close>. On a disconnect it is removed.
\<close>

theorem malformed_message_leaves_session_registered:
  "websocket_endpoint 4 [(Receive Undecodable, example_env)] example_state
     = (example_state\<lparr>active_connections := [1, 2, 3, 4]\<rparr>, Raised JSONDecodeError)
   \<and> websocket_endpoint 4 [(Receive (Decoded (JObj [])), example_env)] example_state
     = (example_state\<lparr>active_connections := [1, 2, 3, 4]\<rparr>, Raised KeyError)
   \<and> websocket_endpoint 4 [(Disconnect, example_env)] example_state
     = (example_state, Returned)"
  by (simp add: websocket_endpoint_def connect_def disconnect_def on_message_def
        example_state_def)

section \<open>The current identifier is never the empty string\<close>

text \<open>
  \<open>start_battle\<close> is the only assignment to \<open>current_battle_id\<close>, and it stores a
  non-empty string; no other handler changes it.
\<close>

lemma start_battle_current_id: "current_battle_id (fst (start_battle sc a d e s)) \<noteq> Some []"
  by (simp add: start_battle_eq Let_def)

lemma cast_vote_current_id:
  "current_battle_id (fst (cast_vote opt u e s)) = current_battle_id s"
proof (cases "get_current_battle s")
  case None
  then show ?thesis by (simp add: cast_vote_none)
next
  case (Some b)
  then obtain i where i: "current_battle_id s = Some i" "i \<noteq> []" "map_of (battles s) i = Some b"
    unfolding get_current_battle_Some by (elim exE conjE)
  show ?thesis by (simp add: cast_vote_current[OF i])
qed

lemma on_message_current_id:
  "current_battle_id (fst (on_message data e s)) = current_battle_id s"
  by (simp add: on_message_def Let_def broadcast_eq
        split: frame.splits sum.splits option.splits)

lemma serve_current_id:
  "current_battle_id (fst (serve websocket events s)) = current_battle_id s"
proof (induction websocket events s rule: serve.induct)
  case (1 websocket s)
  then show ?case by simp
next
  case (2 websocket e rest s)
  then show ?case by (simp add: disconnect_def)
next
  case (3 websocket data e rest s)
  obtain s' r where r: "on_message data e s = (s', r)" by (cases "on_message data e s")
  then have s': "current_battle_id s' = current_battle_id s"
    using on_message_current_id[of data e s] by simp
  show ?case
  proof (cases r)
    case (Inl err)
    with r s' show ?thesis by simp
  next
    case (Inr u)
    with r have "current_battle_id (fst (serve websocket rest s')) = current_battle_id s'"
      by (intro "3.IH") simp_all
    with r s' Inr show ?thesis by simp
  qed
qed

end
